theory Spec2Isabelle
  imports Complex_Main "HOL-Library.AList"
begin

section \<open>JavaScript values and containers\<close>

text \<open>
  Numbers that carry scores (importance, confidence, decay, weight, search score) are
  modelled as \<open>real\<close>; timestamps (\<open>Date.now()\<close>, milliseconds) as \<open>int\<close>; counters
  as \<open>nat\<close>. Strings are \<open>string\<close>, one \<open>char\<close> per UTF-16 code unit below 256.
  An absent property (\<open>undefined\<close>) or \<open>null\<close> is \<open>None\<close>.

  A JavaScript \<open>Map\<close> is an association list in insertion order: \<open>Map.set\<close> overwrites in
  place or appends (\<open>AList.update\<close>), \<open>Map.delete\<close> is \<open>AList.delete\<close>, \<open>Map.get\<close> is
  \<open>map_of\<close>. A JavaScript \<open>Set\<close> is a duplicate-free list in insertion order.
\<close>

definition Set_add :: "'a \<Rightarrow> 'a list \<Rightarrow> 'a list" where
  "Set_add x xs = (if x \<in> set xs then xs else xs @ [x])"

definition Set_delete :: "'a \<Rightarrow> 'a list \<Rightarrow> 'a list" where
  "Set_delete x xs = removeAll x xs"

text \<open>\<open>m.get(k)?.add(x)\<close> and \<open>m.get(k)?.delete(x)\<close>: nothing happens when \<open>k\<close> has no entry.\<close>

definition Map_get_add :: "'k \<Rightarrow> 'a \<Rightarrow> ('k \<times> 'a list) list \<Rightarrow> ('k \<times> 'a list) list" where
  "Map_get_add k x m = (case map_of m k of None \<Rightarrow> m | Some s \<Rightarrow> AList.update k (Set_add x s) m)"

definition Map_get_delete :: "'k \<Rightarrow> 'a \<Rightarrow> ('k \<times> 'a list) list \<Rightarrow> ('k \<times> 'a list) list" where
  "Map_get_delete k x m = (case map_of m k of None \<Rightarrow> m | Some s \<Rightarrow> AList.update k (Set_delete x s) m)"

text \<open>\<open>v || d\<close> on an optional number and on an optional string.\<close>

definition num_or :: "real option \<Rightarrow> real \<Rightarrow> real" where
  "num_or v d = (case v of None \<Rightarrow> d | Some x \<Rightarrow> if x = 0 then d else x)"

definition str_or :: "string option \<Rightarrow> string \<Rightarrow> string" where
  "str_or v d = (case v of None \<Rightarrow> d | Some s \<Rightarrow> if s = [] then d else s)"

definition str_or_null :: "string option \<Rightarrow> string option" where
  "str_or_null v = (case v of None \<Rightarrow> None | Some s \<Rightarrow> if s = [] then None else Some s)"

section \<open>Content hash\<close>

text \<open>
  \<open>JSON.stringify\<close> of a string: the text between double quotes, with the quote, the
  backslash and the control characters escaped.
\<close>

definition hex_digit :: "nat \<Rightarrow> char" where
  "hex_digit d = (if d < 16 then ''0123456789abcdef'' ! d else CHR ''?'')"

definition json_escape :: "char \<Rightarrow> string" where
  "json_escape c =
     (let n = (of_char c :: nat) in
      if n = 0x22 then [CHR 0x5C, CHR 0x22]
      else if n = 0x5C then [CHR 0x5C, CHR 0x5C]
      else if n = 0x08 then [CHR 0x5C, CHR ''b'']
      else if n = 0x0C then [CHR 0x5C, CHR ''f'']
      else if n = 0x0A then [CHR 0x5C, CHR ''n'']
      else if n = 0x0D then [CHR 0x5C, CHR ''r'']
      else if n = 0x09 then [CHR 0x5C, CHR ''t'']
      else if n < 0x20 then [CHR 0x5C, CHR ''u'', CHR ''0'', CHR ''0'', hex_digit (n div 16), hex_digit (n mod 16)]
      else [c])"

definition JSON_stringify :: "string \<Rightarrow> string" where
  "JSON_stringify s = [CHR 0x22] @ concat (map json_escape s) @ [CHR 0x22]"

text \<open>\<open>ToInt32\<close>: the value modulo \<open>2^32\<close>, read as a signed 32-bit integer.\<close>

definition ToInt32 :: "int \<Rightarrow> int" where
  "ToInt32 x = (x + 2147483648) mod 4294967296 - 2147483648"

text \<open>One round of the loop: \<open>hash = ((hash << 5) - hash) + char; hash = hash & hash\<close>.\<close>

definition hash_step :: "int \<Rightarrow> char \<Rightarrow> int" where
  "hash_step hash c = ToInt32 ((ToInt32 (hash * 32) - hash) + of_char c)"

definition digit36 :: "int \<Rightarrow> char" where
  "digit36 d = (if 0 \<le> d \<and> d < 36 then ''0123456789abcdefghijklmnopqrstuvwxyz'' ! nat d
                else CHR ''?'')"

text \<open>\<open>Number.prototype.toString(36)\<close> on a 32-bit integer.\<close>

function base36 :: "int \<Rightarrow> string" where
  "base36 n = (if n < 36 then [digit36 n] else base36 (n div 36) @ [digit36 (n mod 36)])"
  by pat_completeness auto
termination
  by (relation "measure nat") auto

declare base36.simps [simp del]

definition toString36 :: "int \<Rightarrow> string" where
  "toString36 i = (if i < 0 then CHR ''-'' # base36 (- i) else base36 i)"

definition hashContent :: "string \<Rightarrow> string \<Rightarrow> string" where
  "hashContent type content =
     toString36 (foldl hash_step 0 (type @ '':'' @ JSON_stringify content))"

section \<open>Memory nodes\<close>

text \<open>
  The \<open>metadata\<close> argument of the constructors: the keys the code reads, and the free-form
  rest. The stored \<open>node.metadata\<close> is that object spread, then the four bookkeeping keys.
\<close>

record node_options =
  o_importance :: "real option"
  o_confidence :: "real option"
  o_source :: "string option"
  o_platform :: "string option"
  o_sessionId :: "string option"
  o_extra :: "(string \<times> string) list"

record node_metadata =
  md_given :: node_options
  createdAt :: int
  updatedAt :: int
  accessCount :: nat
  lastAccessedAt :: "int option"

record memory_node =
  n_id :: string
  n_type :: string
  n_content :: string
  n_metadata :: node_metadata
  n_importance :: real
  n_confidence :: real
  n_decay :: real
  n_embedding :: "real list option"
  n_source :: string
  n_platform :: string
  n_sessionId :: "string option"

text \<open>
  \<open>new MemoryNode(type, content, metadata)\<close>. The identifier (a timestamp and eight random
  base-36 digits in the source) and the clock reading are inputs.
\<close>

definition MemoryNode_new :: "string \<Rightarrow> int \<Rightarrow> string \<Rightarrow> string \<Rightarrow> node_options \<Rightarrow> memory_node" where
  "MemoryNode_new new_id now type content metadata =
     \<lparr> n_id = new_id,
       n_type = type,
       n_content = content,
       n_metadata = \<lparr> md_given = metadata, createdAt = now, updatedAt = now,
                      accessCount = 0, lastAccessedAt = None \<rparr>,
       n_importance = num_or (o_importance metadata) 0.5,
       n_confidence = num_or (o_confidence metadata) 0.8,
       n_decay = 1.0,
       n_embedding = None,
       n_source = str_or (o_source metadata) ''unknown'',
       n_platform = str_or (o_platform metadata) ''unknown'',
       n_sessionId = str_or_null (o_sessionId metadata) \<rparr>"

definition touch :: "int \<Rightarrow> memory_node \<Rightarrow> memory_node" where
  "touch now n =
     n \<lparr> n_metadata := (n_metadata n) \<lparr> accessCount := accessCount (n_metadata n) + 1,
                                         lastAccessedAt := Some now,
                                         updatedAt := now \<rparr>,
         n_decay := min 1.0 (n_decay n + 0.1) \<rparr>"

definition updateContent :: "int \<Rightarrow> string \<Rightarrow> memory_node \<Rightarrow> memory_node" where
  "updateContent now newContent n =
     n \<lparr> n_content := newContent,
         n_metadata := (n_metadata n) \<lparr> updatedAt := now \<rparr> \<rparr>"

section \<open>Memory edges\<close>

record edge_options =
  eo_weight :: "real option"
  eo_bidirectional :: "bool option"
  eo_extra :: "(string \<times> string) list"

record edge_metadata =
  emd_given :: edge_options
  e_createdAt :: int
  e_updatedAt :: int

record memory_edge =
  e_id :: string
  e_sourceId :: string
  e_targetId :: string
  e_type :: string
  e_weight :: real
  e_metadata :: edge_metadata
  e_bidirectional :: bool

definition MemoryEdge_new :: "string \<Rightarrow> int \<Rightarrow> string \<Rightarrow> string \<Rightarrow> string \<Rightarrow> edge_options \<Rightarrow> memory_edge" where
  "MemoryEdge_new new_id now sourceId targetId type metadata =
     \<lparr> e_id = new_id,
       e_sourceId = sourceId,
       e_targetId = targetId,
       e_type = type,
       e_weight = num_or (eo_weight metadata) 1.0,
       e_metadata = \<lparr> emd_given = metadata, e_createdAt = now, e_updatedAt = now \<rparr>,
       e_bidirectional = (case eo_bidirectional metadata of None \<Rightarrow> False | Some b \<Rightarrow> b) \<rparr>"

definition reinforce :: "int \<Rightarrow> memory_edge \<Rightarrow> memory_edge" where
  "reinforce now e =
     e \<lparr> e_weight := min 2.0 (e_weight e + 0.1),
         e_metadata := (e_metadata e) \<lparr> e_updatedAt := now \<rparr> \<rparr>"

section \<open>Work sessions\<close>

record session_options =
  so_platform :: "string option"
  so_url :: "string option"
  so_title :: "string option"
  so_description :: "string option"
  so_tags :: "string list option"

record work_session =
  s_id :: string
  startedAt :: int
  endedAt :: "int option"
  s_platform :: string
  s_url :: "string option"
  s_title :: string
  s_description :: string
  s_tags :: "string list"
  nodeIds :: "string list"
  promptCount :: nat
  responseCount :: nat
  codeBlockCount :: nat
  errorCount :: nat
  primaryLanguage :: "string option"
  primaryFramework :: "string option"
  primaryTopic :: "string option"
  isActive :: bool

definition WorkSession_new :: "string \<Rightarrow> int \<Rightarrow> session_options \<Rightarrow> work_session" where
  "WorkSession_new new_id now metadata =
     \<lparr> s_id = new_id,
       startedAt = now,
       endedAt = None,
       s_platform = str_or (so_platform metadata) ''unknown'',
       s_url = str_or_null (so_url metadata),
       s_title = str_or (so_title metadata) ''Untitled Session'',
       s_description = str_or (so_description metadata) [],
       s_tags = (case so_tags metadata of None \<Rightarrow> [] | Some ts \<Rightarrow> ts),
       nodeIds = [],
       promptCount = 0,
       responseCount = 0,
       codeBlockCount = 0,
       errorCount = 0,
       primaryLanguage = None,
       primaryFramework = None,
       primaryTopic = None,
       isActive = True \<rparr>"

definition session_addNode :: "string \<Rightarrow> work_session \<Rightarrow> work_session" where
  "session_addNode nodeId s = s \<lparr> nodeIds := Set_add nodeId (nodeIds s) \<rparr>"

definition session_removeNode :: "string \<Rightarrow> work_session \<Rightarrow> work_session" where
  "session_removeNode nodeId s = s \<lparr> nodeIds := Set_delete nodeId (nodeIds s) \<rparr>"

definition session_end :: "int \<Rightarrow> work_session \<Rightarrow> work_session" where
  "session_end now s = s \<lparr> endedAt := Some now, isActive := False \<rparr>"

section \<open>The memory graph\<close>

record graph_stats =
  totalNodes :: int
  totalEdges :: int
  st_createdAt :: int
  lastModified :: int

text \<open>
  \<open>activeSession\<close> is a reference to an object that also sits in \<open>sessions\<close>; the model
  keeps its identifier and reads and writes the object through \<open>sessions\<close>.
\<close>

record memory_graph =
  g_nodes :: "(string \<times> memory_node) list"
  g_edges :: "(string \<times> memory_edge) list"
  outgoing :: "(string \<times> string list) list"
  incoming :: "(string \<times> string list) list"
  nodesByType :: "(string \<times> string list) list"
  edgesByType :: "(string \<times> string list) list"
  contentIndex :: "(string \<times> string) list"
  sessions :: "(string \<times> work_session) list"
  activeSession :: "string option"
  stats :: graph_stats

definition MemoryGraph_new :: "int \<Rightarrow> memory_graph" where
  "MemoryGraph_new now =
     \<lparr> g_nodes = [], g_edges = [], outgoing = [], incoming = [],
       nodesByType = [], edgesByType = [], contentIndex = [],
       sessions = [], activeSession = None,
       stats = \<lparr> totalNodes = 0, totalEdges = 0, st_createdAt = now, lastModified = now \<rparr> \<rparr>"

text \<open>Mutating the object a key refers to, in place; nothing when the key is absent.\<close>

definition Map_modify :: "'k \<Rightarrow> ('v \<Rightarrow> 'v) \<Rightarrow> ('k \<times> 'v) list \<Rightarrow> ('k \<times> 'v) list" where
  "Map_modify k f m = map (\<lambda>(k', v). if k' = k then (k', f v) else (k', v)) m"

text \<open>The node the content index holds for a hash, when both lookups succeed.\<close>

definition existing_node :: "memory_graph \<Rightarrow> string \<Rightarrow> (string \<times> memory_node) option" where
  "existing_node g hash =
     (case map_of (contentIndex g) hash of
        None \<Rightarrow> None
      | Some existingId \<Rightarrow>
          (case map_of (g_nodes g) existingId of
             None \<Rightarrow> None
           | Some existingNode \<Rightarrow> Some (existingId, existingNode)))"

definition addNode ::
  "string \<Rightarrow> int \<Rightarrow> string \<Rightarrow> string \<Rightarrow> node_options \<Rightarrow> memory_graph \<Rightarrow> memory_node \<times> memory_graph" where
  "addNode new_id now type content metadata g =
     (let hash = hashContent type content in
      case existing_node g hash of
        Some (existingId, existingNode) \<Rightarrow>
          (let touched = touch now existingNode;
               merged = (case o_importance metadata of
                           None \<Rightarrow> touched
                         | Some i \<Rightarrow> if i \<noteq> 0 \<and> i > n_importance touched
                                     then touched \<lparr> n_importance := i \<rparr> else touched)
           in (merged, g \<lparr> g_nodes := AList.update existingId merged (g_nodes g) \<rparr>))
      | None \<Rightarrow>
          (let node = MemoryNode_new new_id now type content
                        (metadata \<lparr> o_sessionId := activeSession g \<rparr>);
               byType = (if map_of (nodesByType g) type = None
                         then AList.update type [] (nodesByType g) else nodesByType g)
           in (node,
               g \<lparr> g_nodes := AList.update (n_id node) node (g_nodes g),
                   contentIndex := AList.update hash (n_id node) (contentIndex g),
                   nodesByType := Map_get_add type (n_id node) byType,
                   outgoing := AList.update (n_id node) [] (outgoing g),
                   incoming := AList.update (n_id node) [] (incoming g),
                   sessions := (case activeSession g of
                                  None \<Rightarrow> sessions g
                                | Some sid \<Rightarrow> Map_modify sid (session_addNode (n_id node)) (sessions g)),
                   stats := (stats g) \<lparr> totalNodes := totalNodes (stats g) + 1,
                                        lastModified := now \<rparr> \<rparr>)))"

record node_updates =
  u_content :: "string option"
  u_importance :: "real option"
  u_confidence :: "real option"

definition updateNode ::
  "int \<Rightarrow> string \<Rightarrow> node_updates \<Rightarrow> memory_graph \<Rightarrow> memory_node option \<times> memory_graph" where
  "updateNode now nodeId updates g =
     (case map_of (g_nodes g) nodeId of
        None \<Rightarrow> (None, g)
      | Some node \<Rightarrow>
          (let (node1, index1) =
                 (case u_content updates of
                    None \<Rightarrow> (node, contentIndex g)
                  | Some c \<Rightarrow>
                      (let oldHash = hashContent (n_type node) (n_content node);
                           newHash = hashContent (n_type node) c
                       in (updateContent now c node,
                           AList.update newHash nodeId (AList.delete oldHash (contentIndex g)))));
               node2 = (case u_importance updates of
                          None \<Rightarrow> node1 | Some i \<Rightarrow> node1 \<lparr> n_importance := i \<rparr>);
               node3 = (case u_confidence updates of
                          None \<Rightarrow> node2 | Some c \<Rightarrow> node2 \<lparr> n_confidence := c \<rparr>)
           in (Some node3,
               g \<lparr> g_nodes := AList.update nodeId node3 (g_nodes g),
                   contentIndex := index1,
                   stats := (stats g) \<lparr> lastModified := now \<rparr> \<rparr>)))"

definition removeEdgeInternal :: "string \<Rightarrow> memory_graph \<Rightarrow> memory_graph" where
  "removeEdgeInternal edgeId g =
     (case map_of (g_edges g) edgeId of
        None \<Rightarrow> g
      | Some edge \<Rightarrow>
          (let out1 = Map_get_delete (e_sourceId edge) edgeId (outgoing g);
               in1 = Map_get_delete (e_targetId edge) edgeId (incoming g);
               out2 = (if e_bidirectional edge
                       then Map_get_delete (e_targetId edge) edgeId out1 else out1);
               in2 = (if e_bidirectional edge
                      then Map_get_delete (e_sourceId edge) edgeId in1 else in1)
           in g \<lparr> outgoing := out2,
                   incoming := in2,
                   edgesByType := Map_get_delete (e_type edge) edgeId (edgesByType g),
                   g_edges := AList.delete edgeId (g_edges g),
                   stats := (stats g) \<lparr> totalEdges := totalEdges (stats g) - 1 \<rparr> \<rparr>))"

text \<open>
  The two \<open>for \<dots> of\<close> loops of \<open>removeNode\<close> run over the node's own adjacency sets
  while \<open>_removeEdgeInternal\<close> deletes from them. Each round deletes only the edge it is
  visiting, so the loop visits every member; the second set is read after the first loop.
\<close>

definition removeEdges :: "string list \<Rightarrow> memory_graph \<Rightarrow> memory_graph" where
  "removeEdges edgeIds g = foldl (\<lambda>g' edgeId. removeEdgeInternal edgeId g') g edgeIds"

definition Map_get_or_empty :: "('k \<times> 'a list) list \<Rightarrow> 'k \<Rightarrow> 'a list" where
  "Map_get_or_empty m k = (case map_of m k of None \<Rightarrow> [] | Some s \<Rightarrow> s)"

definition removeNode :: "int \<Rightarrow> string \<Rightarrow> memory_graph \<Rightarrow> bool \<times> memory_graph" where
  "removeNode now nodeId g =
     (case map_of (g_nodes g) nodeId of
        None \<Rightarrow> (False, g)
      | Some node \<Rightarrow>
          (let g1 = removeEdges (Map_get_or_empty (outgoing g) nodeId) g;
               g2 = removeEdges (Map_get_or_empty (incoming g1) nodeId) g1;
               hash = hashContent (n_type node) (n_content node)
           in (True,
               g2 \<lparr> contentIndex := AList.delete hash (contentIndex g2),
                    nodesByType := Map_get_delete (n_type node) nodeId (nodesByType g2),
                    outgoing := AList.delete nodeId (outgoing g2),
                    incoming := AList.delete nodeId (incoming g2),
                    sessions := map (\<lambda>(k, s). (k, session_removeNode nodeId s)) (sessions g2),
                    g_nodes := AList.delete nodeId (g_nodes g2),
                    stats := (stats g2) \<lparr> totalNodes := totalNodes (stats g2) - 1,
                                          lastModified := now \<rparr> \<rparr>)))"

fun findEdge_loop ::
  "(string \<times> memory_edge) list \<Rightarrow> string \<Rightarrow> string \<Rightarrow> string list \<Rightarrow> (string \<times> memory_edge) option" where
  "findEdge_loop es targetId type [] = None"
| "findEdge_loop es targetId type (edgeId # rest) =
     (case map_of es edgeId of
        None \<Rightarrow> findEdge_loop es targetId type rest
      | Some edge \<Rightarrow>
          if e_targetId edge = targetId \<and> e_type edge = type then Some (edgeId, edge)
          else findEdge_loop es targetId type rest)"

definition findEdge ::
  "string \<Rightarrow> string \<Rightarrow> string \<Rightarrow> memory_graph \<Rightarrow> (string \<times> memory_edge) option" where
  "findEdge sourceId targetId type g =
     (case map_of (outgoing g) sourceId of
        None \<Rightarrow> None
      | Some outEdges \<Rightarrow> findEdge_loop (g_edges g) targetId type outEdges)"

definition addEdge ::
  "string \<Rightarrow> int \<Rightarrow> string \<Rightarrow> string \<Rightarrow> string \<Rightarrow> edge_options \<Rightarrow> memory_graph
     \<Rightarrow> memory_edge option \<times> memory_graph" where
  "addEdge new_id now sourceId targetId type metadata g =
     (if map_of (g_nodes g) sourceId = None \<or> map_of (g_nodes g) targetId = None then (None, g)
      else
        (case findEdge sourceId targetId type g of
           Some (existingId, existingEdge) \<Rightarrow>
             (let reinforced = reinforce now existingEdge
              in (Some reinforced, g \<lparr> g_edges := AList.update existingId reinforced (g_edges g) \<rparr>))
         | None \<Rightarrow>
             (let edge = MemoryEdge_new new_id now sourceId targetId type metadata;
                  out1 = Map_get_add sourceId (e_id edge) (outgoing g);
                  in1 = Map_get_add targetId (e_id edge) (incoming g);
                  out2 = (if e_bidirectional edge then Map_get_add targetId (e_id edge) out1 else out1);
                  in2 = (if e_bidirectional edge then Map_get_add sourceId (e_id edge) in1 else in1);
                  byType = (if map_of (edgesByType g) type = None
                            then AList.update type [] (edgesByType g) else edgesByType g)
              in (Some edge,
                  g \<lparr> g_edges := AList.update (e_id edge) edge (g_edges g),
                      outgoing := out2,
                      incoming := in2,
                      edgesByType := Map_get_add type (e_id edge) byType,
                      stats := (stats g) \<lparr> totalEdges := totalEdges (stats g) + 1,
                                           lastModified := now \<rparr> \<rparr>))))"

definition endSession :: "int \<Rightarrow> memory_graph \<Rightarrow> memory_graph" where
  "endSession now g =
     (case activeSession g of
        None \<Rightarrow> g
      | Some sid \<Rightarrow> g \<lparr> sessions := Map_modify sid (session_end now) (sessions g),
                         activeSession := None \<rparr>)"

definition startSession ::
  "string \<Rightarrow> int \<Rightarrow> session_options \<Rightarrow> memory_graph \<Rightarrow> work_session \<times> memory_graph" where
  "startSession new_id now metadata g =
     (let g1 = endSession now g;
          session = WorkSession_new new_id now metadata
      in (session,
          g1 \<lparr> sessions := AList.update (s_id session) session (sessions g1),
               activeSession := Some (s_id session) \<rparr>))"

definition applyDecay :: "real \<Rightarrow> memory_graph \<Rightarrow> memory_graph" where
  "applyDecay decayAmount g =
     g \<lparr> g_nodes := map (\<lambda>(k, n). (k, n \<lparr> n_decay := max 0.1 (n_decay n - decayAmount) \<rparr>)) (g_nodes g) \<rparr>"

definition getRelevanceScore :: "int \<Rightarrow> memory_node \<Rightarrow> real" where
  "getRelevanceScore currentTime n =
     (let ageMs = real_of_int (currentTime - createdAt (n_metadata n));
          ageHours = ageMs / (1000 * 60 * 60);
          halfLife = 24;
          timeDecay = 0.5 powr (ageHours / halfLife);
          recencyBoost =
            (case lastAccessedAt (n_metadata n) of
               None \<Rightarrow> 0
             | Some t \<Rightarrow> if t = 0 then 0
                         else exp (- (real_of_int (currentTime - t) / (1000 * 60 * 60 * 4))) * 0.3);
          accessBoost = ln (1 + real (accessCount (n_metadata n))) * 0.1;
          score = (n_importance n * 0.3 + n_confidence n * 0.2 + timeDecay * 0.25
                     + recencyBoost * 0.15 + accessBoost * 0.1) * n_decay n
      in min 1.0 (max 0 score))"

definition prune :: "int \<Rightarrow> real \<Rightarrow> int \<Rightarrow> memory_graph \<Rightarrow> nat \<times> memory_graph" where
  "prune now minRelevance minAge g =
     (let toRemove = map (\<lambda>(k, n). n_id n)
                       (filter (\<lambda>(k, n). now - createdAt (n_metadata n) > minAge
                                          \<and> getRelevanceScore now n < minRelevance) (g_nodes g))
      in (length toRemove, foldl (\<lambda>g' nodeId. snd (removeNode now nodeId g')) g toRemove))"

section \<open>Serialization\<close>

text \<open>
  \<open>toJSON\<close> of a node, an edge and a session copies every field under its own name (a
  session's \<open>nodeIds\<close> set becomes an array), so the JSON objects have the records' shapes.
\<close>

definition MemoryNode_toJSON :: "memory_node \<Rightarrow> memory_node" where
  "MemoryNode_toJSON n = n"

text \<open>
  \<open>MemoryNode.fromJSON\<close> builds a fresh node from \<open>json.type\<close>, \<open>json.content\<close> and
  \<open>json.metadata\<close> and then assigns the eight other fields; the identifier the constructor
  draws is overwritten at once. The constructor spreads \<open>json.metadata\<close> and then writes
  its four bookkeeping keys.
\<close>

definition MemoryNode_fromJSON :: "int \<Rightarrow> memory_node \<Rightarrow> memory_node" where
  "MemoryNode_fromJSON now json =
     (MemoryNode_new (n_id json) now (n_type json) (n_content json) (md_given (n_metadata json)))
       \<lparr> n_id := n_id json,
         n_importance := n_importance json,
         n_confidence := n_confidence json,
         n_decay := n_decay json,
         n_embedding := n_embedding json,
         n_source := n_source json,
         n_platform := n_platform json,
         n_sessionId := n_sessionId json \<rparr>"

definition MemoryEdge_toJSON :: "memory_edge \<Rightarrow> memory_edge" where
  "MemoryEdge_toJSON e = e"

definition MemoryEdge_fromJSON :: "int \<Rightarrow> memory_edge \<Rightarrow> memory_edge" where
  "MemoryEdge_fromJSON now json =
     (MemoryEdge_new (e_id json) now (e_sourceId json) (e_targetId json) (e_type json)
        (emd_given (e_metadata json)))
       \<lparr> e_id := e_id json,
         e_weight := e_weight json,
         e_bidirectional := e_bidirectional json \<rparr>"

definition WorkSession_toJSON :: "work_session \<Rightarrow> work_session" where
  "WorkSession_toJSON s = s"

definition Set_of_list :: "'a list \<Rightarrow> 'a list" where
  "Set_of_list xs = foldl (\<lambda>s x. Set_add x s) [] xs"

definition WorkSession_fromJSON :: "int \<Rightarrow> work_session \<Rightarrow> work_session" where
  "WorkSession_fromJSON now json =
     (WorkSession_new (s_id json) now
        \<lparr> so_platform = Some (s_platform json), so_url = s_url json,
          so_title = Some (s_title json), so_description = Some (s_description json),
          so_tags = Some (s_tags json) \<rparr>)
       \<lparr> s_id := s_id json,
         startedAt := startedAt json,
         endedAt := endedAt json,
         nodeIds := Set_of_list (nodeIds json),
         promptCount := promptCount json,
         responseCount := responseCount json,
         codeBlockCount := codeBlockCount json,
         errorCount := errorCount json,
         primaryLanguage := primaryLanguage json,
         primaryFramework := primaryFramework json,
         primaryTopic := primaryTopic json,
         isActive := isActive json \<rparr>"

record graph_json =
  j_nodes :: "memory_node list"
  j_edges :: "memory_edge list"
  j_sessions :: "work_session list"
  j_stats :: "graph_stats option"

definition toJSON :: "memory_graph \<Rightarrow> graph_json" where
  "toJSON g =
     \<lparr> j_nodes = map (\<lambda>(k, n). MemoryNode_toJSON n) (g_nodes g),
       j_edges = map (\<lambda>(k, e). MemoryEdge_toJSON e) (g_edges g),
       j_sessions = map (\<lambda>(k, s). WorkSession_toJSON s) (sessions g),
       j_stats = Some (stats g) \<rparr>"

definition restore_node :: "int \<Rightarrow> memory_graph \<Rightarrow> memory_node \<Rightarrow> memory_graph" where
  "restore_node now graph nodeData =
     (let node = MemoryNode_fromJSON now nodeData;
          hash = hashContent (n_type node) (n_content node);
          byType = (if map_of (nodesByType graph) (n_type node) = None
                    then AList.update (n_type node) [] (nodesByType graph) else nodesByType graph)
      in graph \<lparr> g_nodes := AList.update (n_id node) node (g_nodes graph),
                 contentIndex := AList.update hash (n_id node) (contentIndex graph),
                 nodesByType := Map_get_add (n_type node) (n_id node) byType,
                 outgoing := AList.update (n_id node) [] (outgoing graph),
                 incoming := AList.update (n_id node) [] (incoming graph) \<rparr>)"

definition restore_edge :: "int \<Rightarrow> memory_graph \<Rightarrow> memory_edge \<Rightarrow> memory_graph" where
  "restore_edge now graph edgeData =
     (let edge = MemoryEdge_fromJSON now edgeData;
          out1 = Map_get_add (e_sourceId edge) (e_id edge) (outgoing graph);
          in1 = Map_get_add (e_targetId edge) (e_id edge) (incoming graph);
          out2 = (if e_bidirectional edge
                  then Map_get_add (e_targetId edge) (e_id edge) out1 else out1);
          in2 = (if e_bidirectional edge
                 then Map_get_add (e_sourceId edge) (e_id edge) in1 else in1);
          byType = (if map_of (edgesByType graph) (e_type edge) = None
                    then AList.update (e_type edge) [] (edgesByType graph) else edgesByType graph)
      in graph \<lparr> g_edges := AList.update (e_id edge) edge (g_edges graph),
                 outgoing := out2,
                 incoming := in2,
                 edgesByType := Map_get_add (e_type edge) (e_id edge) byType \<rparr>)"

definition restore_session :: "int \<Rightarrow> memory_graph \<Rightarrow> work_session \<Rightarrow> memory_graph" where
  "restore_session now graph sessionData =
     (let session = WorkSession_fromJSON now sessionData
      in graph \<lparr> sessions := AList.update (s_id session) session (sessions graph) \<rparr>)"

definition fromJSON :: "int \<Rightarrow> graph_json \<Rightarrow> memory_graph" where
  "fromJSON now json =
     (let g0 = MemoryGraph_new now;
          g1 = foldl (restore_node now) g0 (j_nodes json);
          g2 = foldl (restore_edge now) g1 (j_edges json);
          g3 = foldl (restore_session now) g2 (j_sessions json);
          st = (case j_stats json of None \<Rightarrow> stats g3 | Some st \<Rightarrow> st)
      in g3 \<lparr> stats := st \<lparr> totalNodes := int (length (g_nodes g3)),
                            totalEdges := int (length (g_edges g3)) \<rparr> \<rparr>)"

section \<open>Cross-tab sync: remote node updates\<close>

text \<open>
  The handlers of \<open>MemorySync\<close> for \<open>node_added\<close> and \<open>node_updated\<close>. \<open>this.graph\<close> is
  \<open>null\<close> until the sync is initialised, hence the option.

  \<open>memory-sync.js\<close> is an ES module: it opens with an \<open>import\<close> statement, it exports its
  class, and the extension loads it as it is, without a bundler. No binding named
  \<open>require\<close> exists in such a module, so evaluating \<open>require('./memory-graph.js')\<close>, the
  first statement of \<open>_applyNodeData\<close>, throws a \<open>ReferenceError\<close> before anything is
  written. The rest of the body is kept as it is written. Nothing on the way from the
  channel's \<open>onmessage\<close> to \<open>_applyNodeData\<close> catches the exception, so a handler's result is
  the exception thrown, if any, together with the graph afterwards.
\<close>

datatype exception = ReferenceError string

definition require :: "string \<Rightarrow> exception + unit" where
  "require path = Inl (ReferenceError ''require is not defined'')"

definition applyNodeData :: "int \<Rightarrow> memory_node \<Rightarrow> memory_graph \<Rightarrow> exception option \<times> memory_graph" where
  "applyNodeData now nodeData graph =
     (case require ''./memory-graph.js'' of
        Inl e \<Rightarrow> (Some e, graph)
      | Inr _ \<Rightarrow>
          (let node = MemoryNode_fromJSON now nodeData;
               hash = hashContent (n_type node) (n_content node);
               byType = (if map_of (nodesByType graph) (n_type node) = None
                         then AList.update (n_type node) [] (nodesByType graph) else nodesByType graph)
           in (None,
               graph \<lparr> g_nodes := AList.update (n_id node) node (g_nodes graph),
                       contentIndex := AList.update hash (n_id node) (contentIndex graph),
                       nodesByType := Map_get_add (n_type node) (n_id node) byType,
                       outgoing := (if map_of (outgoing graph) (n_id node) = None
                                    then AList.update (n_id node) [] (outgoing graph) else outgoing graph),
                       incoming := (if map_of (incoming graph) (n_id node) = None
                                    then AList.update (n_id node) [] (incoming graph) else incoming graph) \<rparr>)))"

definition handleRemoteNodeAdded ::
  "int \<Rightarrow> memory_node \<Rightarrow> memory_graph option \<Rightarrow> exception option \<times> memory_graph option" where
  "handleRemoteNodeAdded now nodeData this_graph =
     (case this_graph of
        None \<Rightarrow> (None, None)
      | Some graph \<Rightarrow>
          (case map_of (g_nodes graph) (n_id nodeData) of
             Some existing \<Rightarrow>
               if updatedAt (n_metadata nodeData) > updatedAt (n_metadata existing)
               then map_prod id Some (applyNodeData now nodeData graph) else (None, Some graph)
           | None \<Rightarrow> map_prod id Some (applyNodeData now nodeData graph)))"

definition handleRemoteNodeUpdated ::
  "int \<Rightarrow> memory_node \<Rightarrow> memory_graph option \<Rightarrow> exception option \<times> memory_graph option" where
  "handleRemoteNodeUpdated now nodeData this_graph =
     (case this_graph of
        None \<Rightarrow> (None, None)
      | Some graph \<Rightarrow>
          (case map_of (g_nodes graph) (n_id nodeData) of
             Some existing \<Rightarrow>
               if updatedAt (n_metadata nodeData) \<ge> updatedAt (n_metadata existing)
               then map_prod id Some (applyNodeData now nodeData graph) else (None, Some graph)
           | None \<Rightarrow> (None, Some graph)))"

datatype node_message = NODE_ADDED | NODE_UPDATED

definition handleNodeMessage ::
  "int \<Rightarrow> node_message \<Rightarrow> memory_node \<Rightarrow> memory_graph option \<Rightarrow> exception option \<times> memory_graph option" where
  "handleNodeMessage now msg payload this_graph =
     (case msg of
        NODE_ADDED \<Rightarrow> handleRemoteNodeAdded now payload this_graph
      | NODE_UPDATED \<Rightarrow> handleRemoteNodeUpdated now payload this_graph)"

section \<open>Strings\<close>

fun starts_with :: "string \<Rightarrow> string \<Rightarrow> bool" where
  "starts_with s [] = True"
| "starts_with [] (p # ps) = False"
| "starts_with (c # cs) (p # ps) = (c = p \<and> starts_with cs ps)"






text \<open>The class \<open>\w\<close>, that is \<open>[A-Za-z0-9_]\<close>.\<close>

definition is_word_char :: "char \<Rightarrow> bool" where
  "is_word_char c =
     (let n = (of_char c :: nat) in
      (48 \<le> n \<and> n \<le> 57) \<or> (65 \<le> n \<and> n \<le> 90) \<or> (97 \<le> n \<and> n \<le> 122) \<or> n = 95)"





section \<open>URLs\<close>

text \<open>
  The constructor \<open>URL\<close> is the platform's. The code reads two fields of the object it
  builds, \<open>origin\<close> and \<open>pathname\<close>, and catches the \<open>TypeError\<close> it throws on a string that
  is not an absolute URL. The constructor is a parameter of the functions that call it,
  \<open>new_URL\<close>, with \<open>None\<close> where it throws: what is proved of them holds for every such
  function, the platform's among them. An argument that is \<open>undefined\<close> is converted to
  the string \<open>undefined\<close>.
\<close>

record URL =
  origin :: string
  pathname :: string

definition String_of :: "string option \<Rightarrow> string" where
  "String_of v = (case v of None \<Rightarrow> ''undefined'' | Some s \<Rightarrow> s)"

definition normalizeUrl :: "(string \<Rightarrow> URL option) \<Rightarrow> string option \<Rightarrow> string" where
  "normalizeUrl new_URL u =
     (case new_URL (String_of u) of
        Some url \<Rightarrow> origin url @ pathname url
      | None \<Rightarrow> (case u of None \<Rightarrow> [] | Some s \<Rightarrow> s))"

definition is_id_char :: "char \<Rightarrow> bool" where
  "is_id_char c = (is_word_char c \<or> c = CHR ''-'')"

text \<open>\<open>pathname.match(/\/c\/([a-zA-Z0-9_-]+)/)\<close>: the first place that matches, the longest run.\<close>

fun match_c :: "string \<Rightarrow> string option" where
  "match_c [] = None"
| "match_c (x # xs) =
     (if starts_with (x # xs) ''/c/'' \<and> takeWhile is_id_char (drop 3 (x # xs)) \<noteq> []
      then Some (takeWhile is_id_char (drop 3 (x # xs)))
      else match_c xs)"

definition stableIdFromUrl :: "(string \<Rightarrow> URL option) \<Rightarrow> string option \<Rightarrow> string option" where
  "stableIdFromUrl new_URL u =
     (case new_URL (String_of u) of
        None \<Rightarrow> None
      | Some url \<Rightarrow>
          (case match_c (pathname url) of None \<Rightarrow> None | Some m \<Rightarrow> Some (''c_'' @ m)))"

section \<open>Conversation store\<close>

text \<open>
  A conversation as it arrives and as it is stored: every key may be absent. \<open>tags\<close> is
  \<open>None\<close> when it is not an array.
\<close>

record conversation =
  c_id :: "string option"
  c_title :: "string option"
  c_url :: "string option"
  c_ts :: "int option"
  c_messages :: "(string \<times> string) list option"
  c_text :: "string option"
  c_hash :: "string option"
  c_tags :: "string list option"
  c_pinned :: "bool option"
  c_notes :: "string option"
  c_createdAt :: "int option"
  c_updatedAt :: "int option"

record conv_store =
  byId :: "(string \<times> conversation) list"
  order :: "string list"
  urlToId :: "(string \<times> string) list"

definition empty_conversation :: conversation where
  "empty_conversation =
     \<lparr> c_id = None, c_title = None, c_url = None, c_ts = None, c_messages = None,
       c_text = None, c_hash = None, c_tags = None, c_pinned = None, c_notes = None,
       c_createdAt = None, c_updatedAt = None \<rparr>"

definition getConversationStore_default :: conv_store where
  "getConversationStore_default = \<lparr> byId = [], order = [], urlToId = [] \<rparr>"

definition or_else :: "'a option \<Rightarrow> 'a option \<Rightarrow> 'a option" where
  "or_else a b = (case a of Some x \<Rightarrow> Some x | None \<Rightarrow> b)"

text \<open>The object spread \<open>{ ...prev, ...conversation }\<close>: the later object's keys win.\<close>

definition spread :: "conversation \<Rightarrow> conversation \<Rightarrow> conversation" where
  "spread prev conv =
     \<lparr> c_id = or_else (c_id conv) (c_id prev),
       c_title = or_else (c_title conv) (c_title prev),
       c_url = or_else (c_url conv) (c_url prev),
       c_ts = or_else (c_ts conv) (c_ts prev),
       c_messages = or_else (c_messages conv) (c_messages prev),
       c_text = or_else (c_text conv) (c_text prev),
       c_hash = or_else (c_hash conv) (c_hash prev),
       c_tags = or_else (c_tags conv) (c_tags prev),
       c_pinned = or_else (c_pinned conv) (c_pinned prev),
       c_notes = or_else (c_notes conv) (c_notes prev),
       c_createdAt = or_else (c_createdAt conv) (c_createdAt prev),
       c_updatedAt = or_else (c_updatedAt conv) (c_updatedAt prev) \<rparr>"

definition truthy_str :: "string option \<Rightarrow> bool" where
  "truthy_str v = (case v of None \<Rightarrow> False | Some s \<Rightarrow> s \<noteq> [])"

definition truthy_int :: "int option \<Rightarrow> bool" where
  "truthy_int v = (case v of None \<Rightarrow> False | Some i \<Rightarrow> i \<noteq> 0)"

text \<open>\<open>drop = store.order.pop(); if (drop) delete store.byId[drop]\<close>.\<close>

definition pop_tail :: "conv_store \<Rightarrow> conv_store" where
  "pop_tail store =
     (let drop = last (order store)
      in store \<lparr> order := butlast (order store),
                 byId := (if drop \<noteq> [] then AList.delete drop (byId store) else byId store) \<rparr>)"

function evict_count :: "nat \<Rightarrow> conv_store \<Rightarrow> conv_store" where
  "evict_count maxItems store =
     (if length (order store) > maxItems then evict_count maxItems (pop_tail store) else store)"
  by pat_completeness auto
termination
  by (relation "measure (\<lambda>(m, store). length (order store))") (auto simp: pop_tail_def Let_def)

declare evict_count.simps [simp del]

function evict_bytes :: "(conv_store \<Rightarrow> nat) \<Rightarrow> nat \<Rightarrow> conv_store \<Rightarrow> conv_store" where
  "evict_bytes approxSize maxBytes store =
     (if approxSize store > maxBytes \<and> length (order store) > 1
      then evict_bytes approxSize maxBytes (pop_tail store) else store)"
  by pat_completeness auto
termination
  by (relation "measure (\<lambda>(a, m, store). length (order store))") (auto simp: pop_tail_def Let_def)

declare evict_bytes.simps [simp del]

datatype save_error = Missing_conversation_id

text \<open>
  The first migration of \<open>saveConversation\<close>: the URL was mapped to another identifier
  and the URL gives a stable one.
\<close>

definition migrate_previous :: "string option \<Rightarrow> string \<Rightarrow> string option \<Rightarrow> conv_store \<Rightarrow> conv_store" where
  "migrate_previous prevForUrl canonicalId stable_id store =
     (case prevForUrl of
        None \<Rightarrow> store
      | Some p \<Rightarrow>
          if p \<noteq> [] \<and> p \<noteq> canonicalId \<and> stable_id \<noteq> None
          then store \<lparr> byId := AList.delete p
                         (case (map_of (byId store) p, map_of (byId store) canonicalId) of
                            (Some rec, None) \<Rightarrow> AList.update canonicalId rec (byId store)
                          | _ \<Rightarrow> byId store),
                       order := filter (\<lambda>x. x \<noteq> p) (order store) \<rparr>
          else store)"

text \<open>The second migration: a record is stored under the incoming, non-canonical identifier.\<close>

definition migrate_incoming :: "string \<Rightarrow> string \<Rightarrow> conv_store \<Rightarrow> conv_store" where
  "migrate_incoming incomingId canonicalId store =
     (case map_of (byId store) incomingId of
        None \<Rightarrow> store
      | Some rec \<Rightarrow>
          if incomingId \<noteq> canonicalId
          then store \<lparr> byId := AList.delete incomingId
                         (if map_of (byId store) canonicalId = None
                          then AList.update canonicalId rec (byId store) else byId store),
                       order := filter (\<lambda>x. x \<noteq> incomingId) (order store) \<rparr>
          else store)"

text \<open>The record to save: the spread, the preserved and normalised metadata, the timestamps.\<close>

definition merged_record :: "int \<Rightarrow> string \<Rightarrow> conversation \<Rightarrow> conversation \<Rightarrow> conversation" where
  "merged_record now canonicalId prev conversation =
     (let toSave0 = (spread prev conversation) \<lparr> c_id := Some canonicalId \<rparr>;
          toSave1 = (if c_tags conversation = None \<and> c_tags prev \<noteq> None
                     then toSave0 \<lparr> c_tags := c_tags prev \<rparr> else toSave0);
          toSave2 = (if c_pinned conversation = None \<and> c_pinned prev \<noteq> None
                     then toSave1 \<lparr> c_pinned := c_pinned prev \<rparr> else toSave1);
          toSave3 = (if c_notes conversation = None \<and> c_notes prev \<noteq> None
                     then toSave2 \<lparr> c_notes := c_notes prev \<rparr> else toSave2);
          toSave4 = (if c_tags toSave3 = None then toSave3 \<lparr> c_tags := Some [] \<rparr> else toSave3);
          toSave5 = toSave4 \<lparr> c_pinned := Some (c_pinned toSave4 = Some True) \<rparr>
      in toSave5 \<lparr> c_createdAt := Some (if truthy_int (c_createdAt prev) then the (c_createdAt prev)
                                         else if truthy_int (c_createdAt conversation)
                                         then the (c_createdAt conversation) else now),
                    c_updatedAt := Some now \<rparr>)"

text \<open>Storing the record, mapping the URL and moving the identifier to the front.\<close>

definition store_record :: "string \<Rightarrow> string \<Rightarrow> conversation \<Rightarrow> conv_store \<Rightarrow> conv_store" where
  "store_record normalizedUrl canonicalId toSave store =
     store \<lparr> byId := AList.update canonicalId toSave (byId store),
             urlToId := (if normalizedUrl \<noteq> []
                         then AList.update normalizedUrl canonicalId (urlToId store)
                         else urlToId store),
             order := canonicalId # filter (\<lambda>x. x \<noteq> canonicalId) (order store) \<rparr>"

text \<open>
  \<open>saveConversation\<close>. \<open>approxSize\<close>, the length of \<open>JSON.stringify(store)\<close>, is a
  parameter; the store read from and written to \<open>chrome.storage.local\<close> is passed in and
  returned.
\<close>

definition saveConversation ::
  "(string \<Rightarrow> URL option) \<Rightarrow> (conv_store \<Rightarrow> nat) \<Rightarrow> int \<Rightarrow> nat \<Rightarrow> nat \<Rightarrow> conversation \<Rightarrow> conv_store
     \<Rightarrow> save_error + conv_store" where
  "saveConversation new_URL approxSize now maxItems maxBytes conversation store =
     (let normalizedUrl = normalizeUrl new_URL (c_url conversation);
          stable_id = stableIdFromUrl new_URL (c_url conversation)
      in case (if truthy_str (c_id conversation) then c_id conversation else None) of
           None \<Rightarrow> Inl Missing_conversation_id
         | Some incomingId \<Rightarrow>
             (let canonicalId = (case stable_id of Some st \<Rightarrow> st | None \<Rightarrow> incomingId);
                  prevForUrl = map_of (urlToId store) normalizedUrl;
                  store1 = migrate_previous prevForUrl canonicalId stable_id store;
                  store2 = migrate_incoming incomingId canonicalId store1;
                  prev = (case map_of (byId store2) canonicalId of
                            Some rec \<Rightarrow> rec | None \<Rightarrow> empty_conversation);
                  toSave = merged_record now canonicalId prev conversation;
                  store3 = store_record normalizedUrl canonicalId toSave store2
              in Inr (evict_bytes approxSize maxBytes (evict_count maxItems store3))))"

definition deleteConversation :: "string \<Rightarrow> conv_store \<Rightarrow> conv_store" where
  "deleteConversation id' store =
     store \<lparr> byId := (if map_of (byId store) id' \<noteq> None then AList.delete id' (byId store)
                      else byId store),
             order := filter (\<lambda>x. x \<noteq> id') (order store),
             urlToId := filter (\<lambda>(u, v). v \<noteq> id') (urlToId store) \<rparr>"

section \<open>Conversation search\<close>





















section \<open>Connector jobs\<close>

datatype job_status = Queued | Running | Done | Failed

record job =
  job_id :: string
  job_type :: string
  job_createdAt :: int
  job_updatedAt :: int
  attempts :: nat
  status :: job_status
  connectorId :: string
  payload :: string
  job_headers :: "(string \<times> string) list"
  kind :: string
  nextRunAt :: "int option"
  lastResponse :: "string option"
  job_error :: "string option"
  job_result :: "int option"

record jobs_store =
  jobs_byId :: "(string \<times> job) list"
  jobs_order :: "string list"



record connector =
  con_url :: "string option"
  con_secret :: "string option"
  con_headers :: "(string \<times> string) list"
  con_enabled :: bool

text \<open>
  What the job pump meets outside the program: the settings' connectors, the answer of
  \<open>chrome.permissions.contains\<close> (\<open>None\<close> when it throws), the HMAC primitive, the
  network, the clock, whose successive readings are \<open>clock 0\<close>, \<open>clock 1\<close>, \<dots>, and the
  platform's \<open>URL\<close> constructor.
\<close>

datatype js_error = JsError (err_name: string) (err_message: string)

datatype fetch_result = Response bool int string | Rejected js_error

record http_request =
  req_url :: string
  req_headers :: "(string \<times> string) list"
  req_body :: string

record pump_env =
  connectorById :: "(string \<times> connector) list"
  permissions_contains :: "string \<Rightarrow> bool option"
  hmacSha256Hex :: "string \<Rightarrow> string \<Rightarrow> string"
  fetch :: "http_request \<Rightarrow> fetch_result"
  clock :: "nat \<Rightarrow> int"
  env_new_URL :: "string \<Rightarrow> URL option"

text \<open>The state a pump run threads: the stored jobs and the number of clock readings taken.\<close>

type_synonym pump_state = "jobs_store \<times> nat"

definition Date_now :: "pump_env \<Rightarrow> pump_state \<Rightarrow> int \<times> pump_state" where
  "Date_now env st = (clock env (snd st), (fst st, Suc (snd st)))"

definition digit10 :: "int \<Rightarrow> char" where
  "digit10 d = (if 0 \<le> d \<and> d < 10 then ''0123456789'' ! nat d else CHR ''?'')"

function decimal :: "int \<Rightarrow> string" where
  "decimal n = (if n < 10 then [digit10 n] else decimal (n div 10) @ [digit10 (n mod 10)])"
  by pat_completeness auto
termination
  by (relation "measure nat") auto

declare decimal.simps [simp del]














section \<open>Extractor entry point\<close>

text \<open>
  \<open>MemoryExtractor.extract\<close>. Everything after the length guard (the seven pattern
  extractors, the relationship builder and the session update) is the parameter
  \<open>run_extractors\<close>, which maps the text and the graph to the report and the new graph.
\<close>

record 'x memory_extractor =
  ex_graph :: memory_graph
  lastExtraction :: "'x option"
  extractionCount :: nat

definition MemoryExtractor_extract ::
  "(string \<Rightarrow> 'm \<Rightarrow> memory_graph \<Rightarrow> 'x \<times> memory_graph) \<Rightarrow> string option \<Rightarrow> 'm
     \<Rightarrow> 'x memory_extractor \<Rightarrow> 'x option \<times> 'x memory_extractor" where
  "MemoryExtractor_extract run_extractors text metadata this =
     (case text of
        None \<Rightarrow> (None, this)
      | Some t \<Rightarrow>
          if t = [] \<or> length t < 20 then (None, this)
          else (let (extraction, g') = run_extractors t metadata (ex_graph this)
                in (Some extraction,
                    this \<lparr> ex_graph := g',
                           lastExtraction := Some extraction,
                           extractionCount := extractionCount this + 1 \<rparr>)))"

section \<open>Vocabulary of the properties\<close>

text \<open>
  Index consistency of a graph: the association lists have unique keys, as \<open>Map\<close>s do;
  every edge joins two live nodes and is listed in the outgoing set of its source and the
  incoming set of its target; every live node has both adjacency sets; the type index lists
  live nodes under their own type; the content index maps a hash to a live node with that hash.
\<close>

definition keys_unique :: "memory_graph \<Rightarrow> bool" where
  "keys_unique g =
     (distinct (map fst (g_nodes g)) \<and> distinct (map fst (g_edges g))
      \<and> distinct (map fst (outgoing g)) \<and> distinct (map fst (incoming g))
      \<and> distinct (map fst (nodesByType g)) \<and> distinct (map fst (contentIndex g)))"

definition edges_linked :: "memory_graph \<Rightarrow> bool" where
  "edges_linked g =
     (\<forall>(k, e) \<in> set (g_edges g).
        map_of (g_nodes g) (e_sourceId e) \<noteq> None \<and> map_of (g_nodes g) (e_targetId e) \<noteq> None
        \<and> k \<in> set (Map_get_or_empty (outgoing g) (e_sourceId e))
        \<and> k \<in> set (Map_get_or_empty (incoming g) (e_targetId e)))"

definition nodes_adjacent :: "memory_graph \<Rightarrow> bool" where
  "nodes_adjacent g =
     (\<forall>(k, n) \<in> set (g_nodes g). map_of (outgoing g) k \<noteq> None \<and> map_of (incoming g) k \<noteq> None)"

definition type_index_sound :: "memory_graph \<Rightarrow> bool" where
  "type_index_sound g =
     (\<forall>(t, s) \<in> set (nodesByType g). \<forall>i \<in> set s.
        case map_of (g_nodes g) i of None \<Rightarrow> False | Some n \<Rightarrow> n_type n = t)"

definition content_index_sound :: "memory_graph \<Rightarrow> bool" where
  "content_index_sound g =
     (\<forall>(h, i) \<in> set (contentIndex g).
        case map_of (g_nodes g) i of
          None \<Rightarrow> False
        | Some n \<Rightarrow> hashContent (n_type n) (n_content n) = h)"

definition graph_inv :: "memory_graph \<Rightarrow> bool" where
  "graph_inv g =
     (keys_unique g \<and> edges_linked g \<and> nodes_adjacent g
      \<and> type_index_sound g \<and> content_index_sound g)"









text \<open>What a step leaves untouched: every job but one, or one job and the order.\<close>

definition same_but :: "string \<Rightarrow> pump_state \<Rightarrow> pump_state \<Rightarrow> bool" where
  "same_but x st st' =
     (jobs_order (fst st') = jobs_order (fst st)
      \<and> (\<forall>y. y \<noteq> x \<longrightarrow> map_of (jobs_byId (fst st')) y = map_of (jobs_byId (fst st)) y))"


section \<open>Example values\<close>

definition no_options :: node_options where
  "no_options = \<lparr> o_importance = None, o_confidence = None, o_source = None, o_platform = None,
                 o_sessionId = None, o_extra = [] \<rparr>"

definition important_options :: node_options where
  "important_options = no_options \<lparr> o_importance := Some 0.9 \<rparr>"

definition empty_extractor :: "unit memory_extractor" where
  "empty_extractor = \<lparr> ex_graph = MemoryGraph_new 0, lastExtraction = None, extractionCount = 0 \<rparr>"

definition no_session_options :: session_options where
  "no_session_options = \<lparr> so_platform = None, so_url = None, so_title = None,
                          so_description = None, so_tags = None \<rparr>"

definition both_ways :: edge_options where
  "both_ways = \<lparr> eo_weight = None, eo_bidirectional = Some True, eo_extra = [] \<rparr>"

definition linked_graph :: memory_graph where
  "linked_graph =
     snd (addEdge ''edge_1'' 40 ''node_b'' ''node_a'' ''part_of'' both_ways
       (snd (addNode ''node_b'' 30 ''framework'' ''django'' no_options
         (snd (addNode ''node_a'' 20 ''language'' ''python'' no_options
           (snd (startSession ''session_1'' 10 no_session_options (MemoryGraph_new 0))))))))"

definition local_graph :: memory_graph where
  "local_graph = snd (addNode ''node_1'' 100 ''topic'' ''old'' no_options (MemoryGraph_new 0))"

definition local_node :: memory_node where
  "local_node = MemoryNode_new ''node_1'' 100 ''topic'' ''old'' no_options"

definition remote_node :: memory_node where
  "remote_node = MemoryNode_new ''node_1'' 120 ''topic'' ''new'' no_options"

definition unknown_node :: memory_node where
  "unknown_node = MemoryNode_new ''node_2'' 120 ''topic'' ''other'' no_options"

definition touched_graph :: memory_graph where
  "touched_graph =
     snd (addNode ''node_b'' 200 ''topic'' ''testing'' no_options
       (snd (addNode ''node_a'' 100 ''topic'' ''testing'' no_options (MemoryGraph_new 0))))"

definition two_topics :: memory_graph where
  "two_topics =
     snd (addNode ''node_b'' 200 ''topic'' ''b'' no_options
       (snd (addNode ''node_a'' 100 ''topic'' ''a'' no_options (MemoryGraph_new 0))))"

definition content_a :: node_updates where
  "content_a = \<lparr> u_content = Some ''a'', u_importance = None, u_confidence = None \<rparr>"

text \<open>
  A stand-in for the platform's \<open>URL\<close> constructor in the examples. It reads an \<open>http\<close> or
  \<open>https\<close> address that is already in serialised form, where the platform's constructor
  gives the scheme and the authority as the origin and the path up to the query or the
  fragment as the pathname, and it refuses every other string.
\<close>

definition serialised_URL :: "string \<Rightarrow> URL option" where
  "serialised_URL u =
     (let scheme = (if starts_with u ''https://'' then ''https://''
                    else if starts_with u ''http://'' then ''http://'' else []);
          rest = drop (length scheme) u;
          authority = takeWhile (\<lambda>c. c \<notin> set ''/?#'') rest;
          after = dropWhile (\<lambda>c. c \<notin> set ''/?#'') rest;
          path = takeWhile (\<lambda>c. c \<notin> set ''?#'') after
      in if scheme = [] \<or> authority = [] then None
         else Some \<lparr> origin = scheme @ authority, pathname = (if path = [] then ''/'' else path) \<rparr>)"

definition conv_tmp_x :: conversation where
  "conv_tmp_x = empty_conversation \<lparr> c_id := Some ''tmp_x'', c_url := Some ''https://chatgpt.com/c/abc'' \<rparr>"

definition conv_c_abc :: conversation where
  "conv_c_abc = empty_conversation \<lparr> c_id := Some ''c_abc'', c_url := Some ''https://chatgpt.com/c/abc'' \<rparr>"

text \<open>
  A store from before the page had a stable address: it holds a record under \<open>tmp_x\<close> and
  maps the address to another temporary identifier.
\<close>

definition legacy_store :: conv_store where
  "legacy_store =
     \<lparr> byId = [(''tmp_x'', empty_conversation \<lparr> c_id := Some ''tmp_x'', c_title := Some ''Draft'' \<rparr>),
               (''tmp_y'', empty_conversation \<lparr> c_id := Some ''tmp_y'',
                                               c_url := Some ''https://chatgpt.com/c/abc'' \<rparr>)],
       order = [''tmp_x'', ''tmp_y''],
       urlToId = [(''https://chatgpt.com/c/abc'', ''tmp_y'')] \<rparr>"











section \<open>Adding the same content twice\<close>

lemma existing_after_addNode:
  assumes "addNode id1 now1 t c m1 g = (n, g1)"
  shows "\<exists>k. existing_node g1 (hashContent t c) = Some (k, n)"
  using assms
  by (auto simp: addNode_def Let_def existing_node_def update_conv'
           split: option.splits prod.splits if_splits)

lemma existing_node_key:
  "existing_node g h = Some (k, n) \<Longrightarrow> k \<in> set (map fst (g_nodes g))"
  by (auto simp: existing_node_def split: option.splits dest!: map_of_SomeD) force

lemma update_keys_present:
  "k \<in> set (map fst al) \<Longrightarrow> map fst (AList.update k v al) = map fst al"
  by (simp add: update_keys)

text \<open>
  C1. Whatever the graph, after \<open>addNode(t, c, m1)\<close> has returned the node \<open>n\<close>, the call
  \<open>addNode(t, c, m2)\<close> returns a node with the same identifier and adds no entry to the
  node table; the access count is one higher, the decay is raised by 0.1 and capped at 1,
  and the importance is the larger of the old one and the one given in \<open>m2\<close> (unchanged
  when \<open>m2\<close> gives none). Importance is taken in its documented range, here \<open>0 \<le> importance\<close>.
\<close>

theorem addNode_twice:
  assumes first: "addNode id1 now1 t c m1 g = (n, g1)"
    and second: "addNode id2 now2 t c m2 g1 = (n', g2)"
    and range: "0 \<le> n_importance n"
  shows "n_id n' = n_id n
       \<and> map fst (g_nodes g2) = map fst (g_nodes g1)
       \<and> accessCount (n_metadata n') = accessCount (n_metadata n) + 1
       \<and> n_decay n' = min 1 (n_decay n + 0.1)
       \<and> n_importance n' = (case o_importance m2 of None \<Rightarrow> n_importance n
                              | Some i \<Rightarrow> max (n_importance n) i)"
proof -
  from existing_after_addNode[OF first] obtain k
    where k: "existing_node g1 (hashContent t c) = Some (k, n)" by blast
  have g2: "g2 = g1 \<lparr> g_nodes := AList.update k n' (g_nodes g1) \<rparr>"
    using second k by (auto simp: addNode_def Let_def split: option.splits if_splits)
  have keys: "map fst (g_nodes g2) = map fst (g_nodes g1)"
    unfolding g2 using existing_node_key[OF k] by (simp add: update_keys_present)
  have n': "n' = (let touched = touch now2 n in
                  case o_importance m2 of None \<Rightarrow> touched
                  | Some i \<Rightarrow> if i \<noteq> 0 \<and> i > n_importance touched
                              then touched \<lparr> n_importance := i \<rparr> else touched)"
    using second k by (auto simp: addNode_def Let_def split: option.splits if_splits)
  have "n_id n' = n_id n"
    unfolding n' by (simp add: Let_def touch_def split: option.splits)
  moreover have "accessCount (n_metadata n') = accessCount (n_metadata n) + 1"
    unfolding n' by (simp add: Let_def touch_def split: option.splits)
  moreover have "n_decay n' = min 1 (n_decay n + 0.1)"
    unfolding n' by (simp add: Let_def touch_def split: option.splits)
  moreover have "n_importance n' = (case o_importance m2 of None \<Rightarrow> n_importance n
                              | Some i \<Rightarrow> max (n_importance n) i)"
    unfolding n' using range by (auto simp: Let_def touch_def split: option.splits)
  ultimately show ?thesis using keys by blast
qed

theorem addNode_twice_witness:
  "0 \<le> n_importance (fst (addNode ''node_a'' 100 ''topic'' ''testing'' no_options (MemoryGraph_new 0)))
   \<and> n_id (fst (addNode ''node_b'' 200 ''topic'' ''testing'' important_options
              (snd (addNode ''node_a'' 100 ''topic'' ''testing'' no_options (MemoryGraph_new 0))))) = ''node_a''
   \<and> accessCount (n_metadata (fst (addNode ''node_b'' 200 ''topic'' ''testing'' important_options
              (snd (addNode ''node_a'' 100 ''topic'' ''testing'' no_options (MemoryGraph_new 0)))))) = 1
   \<and> n_importance (fst (addNode ''node_b'' 200 ''topic'' ''testing'' important_options
              (snd (addNode ''node_a'' 100 ''topic'' ''testing'' no_options (MemoryGraph_new 0))))) = 0.9"
proof -
  let ?r1 = "addNode ''node_a'' 100 ''topic'' ''testing'' no_options (MemoryGraph_new 0)"
  let ?r2 = "addNode ''node_b'' 200 ''topic'' ''testing'' important_options (snd ?r1)"
  have n1: "fst ?r1 = MemoryNode_new ''node_a'' 100 ''topic'' ''testing'' no_options"
    by (simp add: addNode_def existing_node_def MemoryGraph_new_def Let_def no_options_def)
  have r: "0 \<le> n_importance (fst ?r1)"
    unfolding n1 by (simp add: MemoryNode_new_def no_options_def num_or_def)
  have "?r1 = (fst ?r1, snd ?r1)" and "?r2 = (fst ?r2, snd ?r2)" by simp_all
  from addNode_twice[OF this r] show ?thesis
    unfolding n1 by (simp add: MemoryNode_new_def no_options_def important_options_def num_or_def)
qed

section \<open>Deleting a conversation\<close>

text \<open>
  C9. After \<open>deleteConversation(id)\<close> no entry of \<open>urlToId\<close> has the value \<open>id\<close>, so no
  URL is left pointing at the deleted conversation, which is gone from \<open>byId\<close> and \<open>order\<close>.
\<close>

theorem deleteConversation_clears_urlToId:
  "id' \<notin> snd ` set (urlToId (deleteConversation id' store))
   \<and> (\<forall>u. map_of (urlToId (deleteConversation id' store)) u \<noteq> Some id')
   \<and> map_of (byId (deleteConversation id' store)) id' = None
   \<and> id' \<notin> set (order (deleteConversation id' store))"
proof -
  have a: "id' \<notin> snd ` set (urlToId (deleteConversation id' store))"
    by (auto simp: deleteConversation_def)
  have b: "\<forall>u. map_of (urlToId (deleteConversation id' store)) u \<noteq> Some id'"
  proof
    fix u
    show "map_of (urlToId (deleteConversation id' store)) u \<noteq> Some id'"
    proof
      assume "map_of (urlToId (deleteConversation id' store)) u = Some id'"
      then have "(u, id') \<in> set (urlToId (deleteConversation id' store))" by (rule map_of_SomeD)
      then have "id' \<in> snd ` set (urlToId (deleteConversation id' store))" by force
      with a show False by simp
    qed
  qed
  have c: "map_of (byId (deleteConversation id' store)) id' = None"
    by (auto simp: deleteConversation_def delete_conv')
  have d: "id' \<notin> set (order (deleteConversation id' store))"
    by (simp add: deleteConversation_def)
  from a b c d show ?thesis by blast
qed

section \<open>The extractor's length guard\<close>

text \<open>
  C10. For a text that is missing, empty or shorter than 20 characters, \<open>extract\<close> returns
  \<open>null\<close> and leaves the extractor, and with it the graph (nodes, edges, sessions and their
  counters), exactly as it was, whatever the extraction pipeline would do.
\<close>

theorem extract_short_text_returns_null:
  assumes "case text of None \<Rightarrow> True | Some t \<Rightarrow> length t < 20"
  shows "MemoryExtractor_extract run_extractors text metadata this = (None, this)"
  using assms by (auto simp: MemoryExtractor_extract_def split: option.splits)

theorem extract_short_text_returns_null_witness:
  "length ''too short to mine'' < 20
   \<and> MemoryExtractor_extract (\<lambda>t m g. ((), snd (addNode ''node_x'' 1 ''topic'' t no_options g)))
        (Some ''too short to mine'') () empty_extractor = (None, empty_extractor)"
  using extract_short_text_returns_null
          [of "Some ''too short to mine''"
              "\<lambda>t m g. ((), snd (addNode ''node_x'' 1 ''topic'' t no_options g))" "()" empty_extractor]
  by simp

section \<open>Index consistency is preserved\<close>

text \<open>
  Index consistency holds of the empty graph and is kept by every operation of
  \<open>MemoryGraph\<close> that changes the graph: \<open>addNode\<close> (with the fresh identifier that
  \<open>generateId\<close> draws), \<open>updateNode\<close>, \<open>removeNode\<close>, \<open>addEdge\<close>, \<open>startSession\<close>,
  \<open>endSession\<close>, \<open>applyDecay\<close> and \<open>prune\<close>. It is therefore a property of every graph that
  these operations build.
\<close>

lemma set_update_distinct:
  "distinct (map fst m) \<Longrightarrow> set (AList.update k v m) = insert (k, v) {p \<in> set m. fst p \<noteq> k}"
  by (induction m) (auto split: if_splits, force+)

lemma set_delete_alist: "set (AList.delete k m) = {p \<in> set m. fst p \<noteq> k}"
  by (auto simp: AList.delete_eq)

lemma graph_inv_new: "graph_inv (MemoryGraph_new now)"
  by (simp add: graph_inv_def keys_unique_def edges_linked_def nodes_adjacent_def
        type_index_sound_def content_index_sound_def MemoryGraph_new_def)

lemma graph_inv_sessions_irrelevant:
  "graph_inv (g \<lparr> sessions := ss, activeSession := a \<rparr>) = graph_inv g"
  "graph_inv (g \<lparr> sessions := ss \<rparr>) = graph_inv g"
  "graph_inv (g \<lparr> stats := st \<rparr>) = graph_inv g"
  by (simp_all add: graph_inv_def keys_unique_def edges_linked_def nodes_adjacent_def
        type_index_sound_def content_index_sound_def)

lemma graph_inv_endSession: "graph_inv g \<Longrightarrow> graph_inv (endSession now g)"
  by (simp add: endSession_def graph_inv_sessions_irrelevant split: option.splits)

lemma graph_inv_startSession: "graph_inv g \<Longrightarrow> graph_inv (snd (startSession new_id now metadata g))"
  by (simp add: startSession_def Let_def graph_inv_sessions_irrelevant graph_inv_endSession)

text \<open>Rewriting the stored nodes without touching keys, types or contents.\<close>

lemma map_of_map_values:
  "map_of (map (\<lambda>(k, v). (k, f v)) m) k = map_option f (map_of m k)"
  by (induction m) auto

lemma graph_inv_applyDecay: "graph_inv g \<Longrightarrow> graph_inv (applyDecay amount g)"
  unfolding graph_inv_def keys_unique_def edges_linked_def nodes_adjacent_def
        type_index_sound_def content_index_sound_def applyDecay_def
  by (auto simp: map_of_map_values comp_def case_prod_beta split: option.splits)

lemma in_set_map_of: "(k, v) \<in> set m \<Longrightarrow> map_of m k \<noteq> None"
  by (induction m) auto

lemma map_of_in_keys: "map_of m k = Some v \<Longrightarrow> k \<in> fst ` set m"
  by (force dest: map_of_SomeD)

text \<open>Replacing a stored node by one of the same type.\<close>

lemma replace_node_keys:
  "keys_unique g \<Longrightarrow> keys_unique (g \<lparr> g_nodes := AList.update k n' (g_nodes g) \<rparr>)"
  by (simp add: keys_unique_def distinct_update)

lemma replace_node_edges:
  "edges_linked g \<Longrightarrow> edges_linked (g \<lparr> g_nodes := AList.update k n' (g_nodes g) \<rparr>)"
  unfolding edges_linked_def by (auto simp: update_conv')

lemma replace_node_adjacent:
  assumes "map_of (g_nodes g) k = Some n" "keys_unique g" "nodes_adjacent g"
  shows "nodes_adjacent (g \<lparr> g_nodes := AList.update k n' (g_nodes g) \<rparr>)"
  unfolding nodes_adjacent_def
proof (clarsimp)
  fix a b assume "(a, b) \<in> set (AList.update k n' (g_nodes g))"
  then have "a \<in> fst ` set (AList.update k n' (g_nodes g))" by force
  then have "a \<in> fst ` set (g_nodes g)"
    using assms(1) by (auto simp: dom_update dest: map_of_in_keys)
  then obtain c where "(a, c) \<in> set (g_nodes g)" by auto
  with assms(3) show "(\<exists>y. map_of (outgoing g) a = Some y) \<and> (\<exists>y. map_of (incoming g) a = Some y)"
    by (auto simp: nodes_adjacent_def)
qed

lemma replace_node_types:
  assumes "map_of (g_nodes g) k = Some n" "n_type n' = n_type n" "type_index_sound g"
  shows "type_index_sound (g \<lparr> g_nodes := AList.update k n' (g_nodes g) \<rparr>)"
  unfolding type_index_sound_def
proof (clarsimp simp: update_conv')
  fix t s i assume ts: "(t, s) \<in> set (nodesByType g)" and i: "i \<in> set s"
  with assms(3) have c: "case map_of (g_nodes g) i of None \<Rightarrow> False | Some m \<Rightarrow> n_type m = t"
    by (auto simp: type_index_sound_def)
  show "(i = k \<longrightarrow> n_type n' = t) \<and> (i \<noteq> k \<longrightarrow> (case map_of (g_nodes g) i of None \<Rightarrow> False | Some m \<Rightarrow> n_type m = t))"
    using c assms(1,2) by auto
qed

lemma replace_node_index:
  assumes "map_of (g_nodes g) k = Some n" "n_type n' = n_type n" "n_content n' = n_content n"
    and "content_index_sound g"
  shows "content_index_sound (g \<lparr> g_nodes := AList.update k n' (g_nodes g) \<rparr>)"
  unfolding content_index_sound_def
proof (clarsimp simp: update_conv')
  fix h i assume hi: "(h, i) \<in> set (contentIndex g)"
  with assms(4) have c: "case map_of (g_nodes g) i of None \<Rightarrow> False
                          | Some m \<Rightarrow> hashContent (n_type m) (n_content m) = h"
    by (auto simp: content_index_sound_def)
  show "(i = k \<longrightarrow> hashContent (n_type n') (n_content n') = h) \<and>
        (i \<noteq> k \<longrightarrow> (case map_of (g_nodes g) i of None \<Rightarrow> False
                          | Some m \<Rightarrow> hashContent (n_type m) (n_content m) = h))"
    using c assms(1,2,3) by auto
qed

lemma replace_node_same_content:
  assumes "map_of (g_nodes g) k = Some n" "n_type n' = n_type n" "n_content n' = n_content n"
    and "graph_inv g"
  shows "graph_inv (g \<lparr> g_nodes := AList.update k n' (g_nodes g) \<rparr>)"
  using assms
  by (simp add: graph_inv_def replace_node_keys replace_node_edges replace_node_adjacent
        replace_node_types replace_node_index)

lemma distinct_get_add: "distinct (map fst m) \<Longrightarrow> distinct (map fst (Map_get_add k x m))"
  by (simp add: Map_get_add_def distinct_update split: option.splits)

lemma distinct_get_delete: "distinct (map fst m) \<Longrightarrow> distinct (map fst (Map_get_delete k x m))"
  by (simp add: Map_get_delete_def distinct_update split: option.splits)

lemma get_add_entries:
  assumes "distinct (map fst m)" "(k', s') \<in> set (Map_get_add k x m)"
  shows "(k' = k \<and> (\<exists>s. (k, s) \<in> set m \<and> set s' = insert x (set s))) \<or> (k' \<noteq> k \<and> (k', s') \<in> set m)"
proof (cases "map_of m k")
  case None
  then have "k \<notin> fst ` set m" by (simp add: map_of_eq_None_iff)
  with assms(2) None show ?thesis by (force simp: Map_get_add_def)
next
  case (Some s)
  with assms(2) have "(k', s') \<in> set (AList.update k (Set_add x s) m)"
    by (simp add: Map_get_add_def)
  then have "(k' = k \<and> s' = Set_add x s) \<or> (k' \<noteq> k \<and> (k', s') \<in> set m)"
    using assms(1) by (auto simp: set_update_distinct)
  moreover have "(k, s) \<in> set m" using Some by (rule map_of_SomeD)
  ultimately show ?thesis by (auto simp: Set_add_def)
qed

lemma get_or_empty_add:
  "Map_get_or_empty (Map_get_add k x m) k' =
     (if k' = k \<and> map_of m k \<noteq> None then Set_add x (Map_get_or_empty m k) else Map_get_or_empty m k')"
  by (auto simp: Map_get_or_empty_def Map_get_add_def update_conv' split: option.splits)

lemma map_of_get_add_None: "map_of (Map_get_add k x m) k' = None \<longleftrightarrow> map_of m k' = None"
  by (auto simp: Map_get_add_def update_conv' split: option.splits)

lemma map_of_get_delete_None: "map_of (Map_get_delete k x m) k' = None \<longleftrightarrow> map_of m k' = None"
  by (auto simp: Map_get_delete_def update_conv' split: option.splits)

lemma existing_node_None:
  assumes "existing_node g h = None" "content_index_sound g"
  shows "map_of (contentIndex g) h = None"
proof (rule ccontr)
  assume "map_of (contentIndex g) h \<noteq> None"
  then obtain i where i: "map_of (contentIndex g) h = Some i" by auto
  then have "(h, i) \<in> set (contentIndex g)" by (rule map_of_SomeD)
  with assms(2) have "map_of (g_nodes g) i \<noteq> None"
    by (auto simp: content_index_sound_def split: option.splits)
  with assms(1) i show False by (auto simp: existing_node_def split: option.splits)
qed

lemma edges_linkedI:
  "(\<And>k e. (k, e) \<in> set (g_edges g) \<Longrightarrow>
      map_of (g_nodes g) (e_sourceId e) \<noteq> None \<and> map_of (g_nodes g) (e_targetId e) \<noteq> None
      \<and> k \<in> set (Map_get_or_empty (outgoing g) (e_sourceId e))
      \<and> k \<in> set (Map_get_or_empty (incoming g) (e_targetId e))) \<Longrightarrow> edges_linked g"
  by (auto simp: edges_linked_def)

lemma edges_linkedD:
  "edges_linked g \<Longrightarrow> (k, e) \<in> set (g_edges g) \<Longrightarrow>
      map_of (g_nodes g) (e_sourceId e) \<noteq> None \<and> map_of (g_nodes g) (e_targetId e) \<noteq> None
      \<and> k \<in> set (Map_get_or_empty (outgoing g) (e_sourceId e))
      \<and> k \<in> set (Map_get_or_empty (incoming g) (e_targetId e))"
  by (auto simp: edges_linked_def)

lemma nodes_adjacentI:
  "(\<And>k. map_of (g_nodes g) k \<noteq> None \<Longrightarrow> map_of (outgoing g) k \<noteq> None \<and> map_of (incoming g) k \<noteq> None)
     \<Longrightarrow> nodes_adjacent g"
  unfolding nodes_adjacent_def by (auto dest: in_set_map_of)

lemma nodes_adjacentD:
  "nodes_adjacent g \<Longrightarrow> map_of (g_nodes g) k \<noteq> None \<Longrightarrow>
     map_of (outgoing g) k \<noteq> None \<and> map_of (incoming g) k \<noteq> None"
  unfolding nodes_adjacent_def by (auto dest!: map_of_SomeD)

lemma type_index_soundI:
  "(\<And>t s i. (t, s) \<in> set (nodesByType g) \<Longrightarrow> i \<in> set s \<Longrightarrow>
      \<exists>n. map_of (g_nodes g) i = Some n \<and> n_type n = t) \<Longrightarrow> type_index_sound g"
  unfolding type_index_sound_def by (fastforce split: option.splits)

lemma type_index_soundD:
  "type_index_sound g \<Longrightarrow> (t, s) \<in> set (nodesByType g) \<Longrightarrow> i \<in> set s \<Longrightarrow>
      \<exists>n. map_of (g_nodes g) i = Some n \<and> n_type n = t"
  unfolding type_index_sound_def by (fastforce split: option.splits)

lemma content_index_soundI:
  "(\<And>h i. (h, i) \<in> set (contentIndex g) \<Longrightarrow>
      \<exists>n. map_of (g_nodes g) i = Some n \<and> hashContent (n_type n) (n_content n) = h)
     \<Longrightarrow> content_index_sound g"
  unfolding content_index_sound_def by (fastforce split: option.splits)

lemma content_index_soundD:
  "content_index_sound g \<Longrightarrow> (h, i) \<in> set (contentIndex g) \<Longrightarrow>
      \<exists>n. map_of (g_nodes g) i = Some n \<and> hashContent (n_type n) (n_content n) = h"
  unfolding content_index_sound_def by (fastforce split: option.splits)

lemma graph_inv_addNode_new:
  assumes inv: "graph_inv g" and fresh: "map_of (g_nodes g) new_id = None"
    and none: "existing_node g (hashContent t c) = None"
  shows "graph_inv (snd (addNode new_id now t c m g))"
proof -
  define node where "node = MemoryNode_new new_id now t c (m \<lparr> o_sessionId := activeSession g \<rparr>)"
  define byType where "byType = (if map_of (nodesByType g) t = None
                         then AList.update t [] (nodesByType g) else nodesByType g)"
  define g' where "g' = g \<lparr> g_nodes := AList.update new_id node (g_nodes g),
                   contentIndex := AList.update (hashContent t c) new_id (contentIndex g),
                   nodesByType := Map_get_add t new_id byType,
                   outgoing := AList.update new_id [] (outgoing g),
                   incoming := AList.update new_id [] (incoming g) \<rparr>"
  have nid: "n_id node = new_id" "n_type node = t" "n_content node = c"
    by (simp_all add: node_def MemoryNode_new_def)
  have res: "snd (addNode new_id now t c m g) =
               g' \<lparr> sessions := (case activeSession g of
                                  None \<Rightarrow> sessions g
                                | Some sid \<Rightarrow> Map_modify sid (session_addNode new_id) (sessions g)),
                    stats := (stats g) \<lparr> totalNodes := totalNodes (stats g) + 1, lastModified := now \<rparr> \<rparr>"
    using none nid
    by (simp add: addNode_def Let_def node_def[symmetric] byType_def[symmetric] g'_def split: option.splits)
  have f: "g_nodes g' = AList.update new_id node (g_nodes g)" "g_edges g' = g_edges g"
    "contentIndex g' = AList.update (hashContent t c) new_id (contentIndex g)"
    "nodesByType g' = Map_get_add t new_id byType"
    "outgoing g' = AList.update new_id [] (outgoing g)"
    "incoming g' = AList.update new_id [] (incoming g)"
    by (simp_all add: g'_def)
  from inv have ku: "keys_unique g" and el: "edges_linked g" and na: "nodes_adjacent g"
    and ti: "type_index_sound g" and ci: "content_index_sound g"
    by (simp_all add: graph_inv_def)
  have dbt: "distinct (map fst byType)"
    using ku by (simp add: byType_def keys_unique_def distinct_update)
  have 1: "keys_unique g'"
    using ku dbt by (simp add: f keys_unique_def distinct_update distinct_get_add)
  have live: "\<And>i. map_of (g_nodes g) i \<noteq> None \<Longrightarrow> i \<noteq> new_id" using fresh by auto
  have 2: "edges_linked g'"
  proof (rule edges_linkedI)
    fix k e assume "(k, e) \<in> set (g_edges g')"
    then have ke: "(k, e) \<in> set (g_edges g)" by (simp add: f)
    from edges_linkedD[OF el ke] have s: "map_of (g_nodes g) (e_sourceId e) \<noteq> None"
      "map_of (g_nodes g) (e_targetId e) \<noteq> None"
      "k \<in> set (Map_get_or_empty (outgoing g) (e_sourceId e))"
      "k \<in> set (Map_get_or_empty (incoming g) (e_targetId e))"
      by simp_all
    from live[OF s(1)] live[OF s(2)] s
    show "map_of (g_nodes g') (e_sourceId e) \<noteq> None \<and> map_of (g_nodes g') (e_targetId e) \<noteq> None
      \<and> k \<in> set (Map_get_or_empty (outgoing g') (e_sourceId e))
      \<and> k \<in> set (Map_get_or_empty (incoming g') (e_targetId e))"
      by (simp add: f Map_get_or_empty_def update_conv')
  qed
  have 3: "nodes_adjacent g'"
  proof (rule nodes_adjacentI)
    fix k assume "map_of (g_nodes g') k \<noteq> None"
    then have "k = new_id \<or> map_of (g_nodes g) k \<noteq> None"
      by (auto simp: f update_conv' split: if_splits)
    then show "map_of (outgoing g') k \<noteq> None \<and> map_of (incoming g') k \<noteq> None"
      using nodes_adjacentD[OF na, of k] by (auto simp: f update_conv')
  qed
  have by_entries: "\<And>t' s. (t', s) \<in> set byType \<Longrightarrow> (t', s) \<in> set (nodesByType g) \<or> (t' = t \<and> s = [])"
    using ku by (auto simp: byType_def keys_unique_def set_update_distinct split: if_splits)
  have 4: "type_index_sound g'"
  proof (rule type_index_soundI)
    fix t' s' i assume "(t', s') \<in> set (nodesByType g')" and i: "i \<in> set s'"
    then have e: "(t', s') \<in> set (Map_get_add t new_id byType)" by (simp add: f)
    from get_add_entries[OF dbt e]
    consider s where "t' = t" "(t, s) \<in> set byType" "set s' = insert new_id (set s)"
      | "t' \<noteq> t" "(t', s') \<in> set byType" by blast
    then have "(i = new_id \<and> t' = t) \<or> (\<exists>s. (t', s) \<in> set (nodesByType g) \<and> i \<in> set s)"
    proof cases
      case 1
      then show ?thesis using i by_entries[OF 1(2)] by auto
    next
      case 2
      then show ?thesis using i by_entries[OF 2(2)] by auto
    qed
    then show "\<exists>n. map_of (g_nodes g') i = Some n \<and> n_type n = t'"
    proof
      assume "i = new_id \<and> t' = t"
      then show ?thesis by (simp add: f update_conv' nid)
    next
      assume "\<exists>s. (t', s) \<in> set (nodesByType g) \<and> i \<in> set s"
      then obtain s where "(t', s) \<in> set (nodesByType g)" "i \<in> set s" by blast
      from type_index_soundD[OF ti this] obtain n where n: "map_of (g_nodes g) i = Some n" "n_type n = t'"
        by blast
      with fresh have "i \<noteq> new_id" by auto
      with n show ?thesis by (simp add: f update_conv')
    qed
  qed
  have 5: "content_index_sound g'"
  proof (rule content_index_soundI)
    fix h i assume "(h, i) \<in> set (contentIndex g')"
    then have "(h = hashContent t c \<and> i = new_id) \<or> (h, i) \<in> set (contentIndex g)"
      using ku by (auto simp: f keys_unique_def set_update_distinct)
    then show "\<exists>n. map_of (g_nodes g') i = Some n \<and> hashContent (n_type n) (n_content n) = h"
    proof
      assume "h = hashContent t c \<and> i = new_id"
      then show ?thesis by (simp add: f update_conv' nid)
    next
      assume "(h, i) \<in> set (contentIndex g)"
      from content_index_soundD[OF ci this] obtain n where
        n: "map_of (g_nodes g) i = Some n" "hashContent (n_type n) (n_content n) = h" by blast
      with fresh have "i \<noteq> new_id" by auto
      with n show ?thesis by (simp add: f update_conv')
    qed
  qed
  from 1 2 3 4 5 have "graph_inv g'" by (simp add: graph_inv_def)
  then show ?thesis by (simp add: res graph_inv_sessions_irrelevant)
qed

lemma graph_inv_addNode:
  assumes inv: "graph_inv g" and fresh: "map_of (g_nodes g) new_id = None"
  shows "graph_inv (snd (addNode new_id now t c m g))"
proof (cases "existing_node g (hashContent t c)")
  case None
  from graph_inv_addNode_new[OF inv fresh None] show ?thesis .
next
  case (Some p)
  obtain k n where p: "p = (k, n)" by (cases p)
  with Some have kn: "map_of (g_nodes g) k = Some n"
    by (auto simp: existing_node_def split: option.splits)
  define merged where "merged = (let touched = touch now n in
       case o_importance m of None \<Rightarrow> touched
       | Some i \<Rightarrow> if i \<noteq> 0 \<and> i > n_importance touched then touched \<lparr> n_importance := i \<rparr> else touched)"
  have same: "n_type merged = n_type n" "n_content merged = n_content n"
    by (simp_all add: merged_def touch_def Let_def split: option.splits)
  have "snd (addNode new_id now t c m g) = g \<lparr> g_nodes := AList.update k merged (g_nodes g) \<rparr>"
    using Some p by (simp add: addNode_def Let_def merged_def)
  with replace_node_same_content[OF kn same inv] show ?thesis by simp
qed

lemma graph_inv_updateNode:
  assumes inv: "graph_inv g"
  shows "graph_inv (snd (updateNode now nodeId updates g))"
proof (cases "map_of (g_nodes g) nodeId")
  case None
  then show ?thesis using inv by (simp add: updateNode_def)
next
  case (Some node)
  define content' where "content' = (case u_content updates of None \<Rightarrow> n_content node | Some c \<Rightarrow> c)"
  define index1 where "index1 = (case u_content updates of
        None \<Rightarrow> contentIndex g
      | Some c \<Rightarrow> AList.update (hashContent (n_type node) c) nodeId
                    (AList.delete (hashContent (n_type node) (n_content node)) (contentIndex g)))"
  define node1 where "node1 = (case u_content updates of None \<Rightarrow> node | Some c \<Rightarrow> updateContent now c node)"
  define node2 where "node2 = (case u_importance updates of
                          None \<Rightarrow> node1 | Some i \<Rightarrow> node1 \<lparr> n_importance := i \<rparr>)"
  define node3 where "node3 = (case u_confidence updates of
                          None \<Rightarrow> node2 | Some c \<Rightarrow> node2 \<lparr> n_confidence := c \<rparr>)"
  have res: "snd (updateNode now nodeId updates g) =
        g \<lparr> g_nodes := AList.update nodeId node3 (g_nodes g), contentIndex := index1,
             stats := (stats g) \<lparr> lastModified := now \<rparr> \<rparr>"
    using Some
    by (simp add: updateNode_def Let_def index1_def node1_def node2_def node3_def
             split: option.splits)
  have ty: "n_type node3 = n_type node"
    by (simp add: node3_def node2_def node1_def updateContent_def split: option.splits)
  have co: "n_content node3 = content'"
    by (simp add: node3_def node2_def node1_def updateContent_def content'_def split: option.splits)
  define g' where "g' = g \<lparr> g_nodes := AList.update nodeId node3 (g_nodes g), contentIndex := index1 \<rparr>"
  have f: "g_nodes g' = AList.update nodeId node3 (g_nodes g)" "g_edges g' = g_edges g"
    "contentIndex g' = index1" "nodesByType g' = nodesByType g"
    "outgoing g' = outgoing g" "incoming g' = incoming g"
    by (simp_all add: g'_def)
  from inv have ku: "keys_unique g" and el: "edges_linked g" and na: "nodes_adjacent g"
    and ti: "type_index_sound g" and ci: "content_index_sound g"
    by (simp_all add: graph_inv_def)
  have live: "\<And>k. map_of (g_nodes g') k \<noteq> None \<longleftrightarrow> map_of (g_nodes g) k \<noteq> None"
    using Some by (auto simp: f update_conv')
  have 1: "keys_unique g'"
    using ku by (auto simp: f keys_unique_def index1_def distinct_update distinct_delete split: option.splits)
  have 2: "edges_linked g'"
  proof (rule edges_linkedI)
    fix k e assume "(k, e) \<in> set (g_edges g')"
    then have "(k, e) \<in> set (g_edges g)" by (simp add: f)
    from edges_linkedD[OF el this] live
    show "map_of (g_nodes g') (e_sourceId e) \<noteq> None \<and> map_of (g_nodes g') (e_targetId e) \<noteq> None
          \<and> k \<in> set (Map_get_or_empty (outgoing g') (e_sourceId e))
          \<and> k \<in> set (Map_get_or_empty (incoming g') (e_targetId e))"
      by (simp add: f del: not_None_eq)
  qed
  have 3: "nodes_adjacent g'"
  proof (rule nodes_adjacentI)
    fix k assume "map_of (g_nodes g') k \<noteq> None"
    then have "map_of (g_nodes g) k \<noteq> None" using live by blast
    from nodes_adjacentD[OF na this]
    show "map_of (outgoing g') k \<noteq> None \<and> map_of (incoming g') k \<noteq> None"
      by (simp add: f)
  qed
  have 4: "type_index_sound g'"
  proof (rule type_index_soundI)
    fix t s i assume "(t, s) \<in> set (nodesByType g')" "i \<in> set s"
    then have "(t, s) \<in> set (nodesByType g)" "i \<in> set s" by (simp_all add: f)
    from type_index_soundD[OF ti this] obtain n where "map_of (g_nodes g) i = Some n" "n_type n = t"
      by blast
    then show "\<exists>n. map_of (g_nodes g') i = Some n \<and> n_type n = t"
      using Some ty by (auto simp: f update_conv')
  qed
  have 5: "content_index_sound g'"
  proof (rule content_index_soundI)
    fix h i assume hi: "(h, i) \<in> set (contentIndex g')"
    show "\<exists>n. map_of (g_nodes g') i = Some n \<and> hashContent (n_type n) (n_content n) = h"
    proof (cases "u_content updates")
      case None
      with hi have "(h, i) \<in> set (contentIndex g)" by (simp add: f index1_def)
      from content_index_soundD[OF ci this] obtain n where
        "map_of (g_nodes g) i = Some n" "hashContent (n_type n) (n_content n) = h" by blast
      then show ?thesis using Some ty co None by (auto simp: f update_conv' content'_def)
    next
      case (Some c)
      have dd: "distinct (map fst (AList.delete (hashContent (n_type node) (n_content node)) (contentIndex g)))"
        using ku by (simp add: keys_unique_def distinct_delete)
      from hi Some have "(h, i) \<in> set (AList.update (hashContent (n_type node) c) nodeId
                    (AList.delete (hashContent (n_type node) (n_content node)) (contentIndex g)))"
        by (simp add: f index1_def)
      then have "(h = hashContent (n_type node) c \<and> i = nodeId)
                 \<or> ((h, i) \<in> set (contentIndex g) \<and> h \<noteq> hashContent (n_type node) (n_content node))"
        by (auto simp: set_update_distinct[OF dd] set_delete_alist)
      then show ?thesis
      proof
        assume "h = hashContent (n_type node) c \<and> i = nodeId"
        then show ?thesis using ty co Some by (simp add: f update_conv' content'_def)
      next
        assume a: "(h, i) \<in> set (contentIndex g) \<and> h \<noteq> hashContent (n_type node) (n_content node)"
        from content_index_soundD[OF ci conjunct1[OF a]] obtain n where
          n: "map_of (g_nodes g) i = Some n" "hashContent (n_type n) (n_content n) = h" by blast
        with a \<open>map_of (g_nodes g) nodeId = Some node\<close> have "i \<noteq> nodeId" by auto
        with n show ?thesis by (simp add: f update_conv')
      qed
    qed
  qed
  from 1 2 3 4 5 have "graph_inv g'" by (simp add: graph_inv_def)
  then show ?thesis by (simp add: res g'_def graph_inv_sessions_irrelevant)
qed

lemma findEdge_loop_stored:
  "findEdge_loop es targetId ty ids = Some (k, e) \<Longrightarrow> map_of es k = Some e"
  by (induction ids) (auto split: option.splits if_splits)

lemma findEdge_stored:
  "findEdge sourceId targetId ty g = Some (k, e) \<Longrightarrow> map_of (g_edges g) k = Some e"
  by (auto simp: findEdge_def split: option.splits dest: findEdge_loop_stored)

lemma get_or_empty_add_mono:
  "y \<in> set (Map_get_or_empty m k') \<Longrightarrow> y \<in> set (Map_get_or_empty (Map_get_add k x m) k')"
  by (auto simp: get_or_empty_add Set_add_def)

lemma get_or_empty_add_self:
  "map_of m k \<noteq> None \<Longrightarrow> x \<in> set (Map_get_or_empty (Map_get_add k x m) k)"
  by (auto simp: get_or_empty_add Set_add_def)

lemma graph_inv_addEdge:
  assumes inv: "graph_inv g"
  shows "graph_inv (snd (addEdge new_id now sourceId targetId ty metadata g))"
proof (cases "map_of (g_nodes g) sourceId = None \<or> map_of (g_nodes g) targetId = None")
  case True
  then show ?thesis using inv by (auto simp: addEdge_def)
next
  case False
  then have src: "map_of (g_nodes g) sourceId \<noteq> None" and tgt: "map_of (g_nodes g) targetId \<noteq> None"
    by simp_all
  from inv have ku: "keys_unique g" and el: "edges_linked g" and na: "nodes_adjacent g"
    and ti: "type_index_sound g" and ci: "content_index_sound g"
    by (simp_all add: graph_inv_def)
  show ?thesis
  proof (cases "findEdge sourceId targetId ty g")
    case (Some p)
    obtain k e where p: "p = (k, e)" by (cases p)
    from findEdge_stored[OF Some[unfolded p]] have ke: "map_of (g_edges g) k = Some e" .
    then have kein: "(k, e) \<in> set (g_edges g)" by (rule map_of_SomeD)
    define g' where "g' = g \<lparr> g_edges := AList.update k (reinforce now e) (g_edges g) \<rparr>"
    have res: "snd (addEdge new_id now sourceId targetId ty metadata g) = g'"
      unfolding addEdge_def using Some p
      by (simp only: if_not_P[OF False]) (simp add: Let_def g'_def)
    have f: "g_nodes g' = g_nodes g" "g_edges g' = AList.update k (reinforce now e) (g_edges g)"
      "contentIndex g' = contentIndex g" "nodesByType g' = nodesByType g"
      "outgoing g' = outgoing g" "incoming g' = incoming g"
      by (simp_all add: g'_def)
    have same: "e_sourceId (reinforce now e) = e_sourceId e" "e_targetId (reinforce now e) = e_targetId e"
      by (simp_all add: reinforce_def)
    have 1: "keys_unique g'" using ku by (simp add: f keys_unique_def distinct_update)
    have 2: "edges_linked g'"
    proof (rule edges_linkedI)
      fix k' e' assume "(k', e') \<in> set (g_edges g')"
      then have "(k' = k \<and> e' = reinforce now e) \<or> (k', e') \<in> set (g_edges g)"
        using ku by (auto simp: f keys_unique_def set_update_distinct)
      then show "map_of (g_nodes g') (e_sourceId e') \<noteq> None \<and> map_of (g_nodes g') (e_targetId e') \<noteq> None
          \<and> k' \<in> set (Map_get_or_empty (outgoing g') (e_sourceId e'))
          \<and> k' \<in> set (Map_get_or_empty (incoming g') (e_targetId e'))"
        using edges_linkedD[OF el kein] edges_linkedD[OF el, of k' e'] same by (auto simp: f)
    qed
    have 3: "nodes_adjacent g'" using na by (simp add: nodes_adjacent_def f)
    have 4: "type_index_sound g'" using ti by (simp add: type_index_sound_def f)
    have 5: "content_index_sound g'" using ci by (simp add: content_index_sound_def f)
    from 1 2 3 4 5 show ?thesis by (simp add: res graph_inv_def)
  next
    case None
    define edge where "edge = MemoryEdge_new new_id now sourceId targetId ty metadata"
    define out1 where "out1 = Map_get_add sourceId new_id (outgoing g)"
    define in1 where "in1 = Map_get_add targetId new_id (incoming g)"
    define out2 where "out2 = (if e_bidirectional edge then Map_get_add targetId new_id out1 else out1)"
    define in2 where "in2 = (if e_bidirectional edge then Map_get_add sourceId new_id in1 else in1)"
    define g' where "g' = g \<lparr> g_edges := AList.update new_id edge (g_edges g),
                      outgoing := out2, incoming := in2 \<rparr>"
    have eid: "e_id edge = new_id" "e_sourceId edge = sourceId" "e_targetId edge = targetId"
      by (simp_all add: edge_def MemoryEdge_new_def)
    define bt where "bt = Map_get_add ty new_id
                 (if map_of (edgesByType g) ty = None
                  then AList.update ty [] (edgesByType g) else edgesByType g)"
    define st where "st = (stats g) \<lparr> totalEdges := totalEdges (stats g) + 1, lastModified := now \<rparr>"
    have res: "snd (addEdge new_id now sourceId targetId ty metadata g) =
                 g' \<lparr> edgesByType := bt, stats := st \<rparr>"
      unfolding addEdge_def using None eid
      by (simp only: if_not_P[OF False])
         (simp add: Let_def edge_def[symmetric] out1_def in1_def out2_def in2_def g'_def bt_def st_def)
    have f: "g_nodes g' = g_nodes g" "g_edges g' = AList.update new_id edge (g_edges g)"
      "contentIndex g' = contentIndex g" "nodesByType g' = nodesByType g"
      "outgoing g' = out2" "incoming g' = in2"
      by (simp_all add: g'_def)
    have mono_out: "\<And>y k'. y \<in> set (Map_get_or_empty (outgoing g) k') \<Longrightarrow> y \<in> set (Map_get_or_empty out2 k')"
      by (simp add: out2_def out1_def get_or_empty_add_mono)
    have mono_in: "\<And>y k'. y \<in> set (Map_get_or_empty (incoming g) k') \<Longrightarrow> y \<in> set (Map_get_or_empty in2 k')"
      by (simp add: in2_def in1_def get_or_empty_add_mono)
    have adj: "map_of (outgoing g) sourceId \<noteq> None" "map_of (incoming g) targetId \<noteq> None"
      using nodes_adjacentD[OF na src] nodes_adjacentD[OF na tgt] by simp_all
    have new_out: "new_id \<in> set (Map_get_or_empty out2 sourceId)"
      using get_or_empty_add_self[OF adj(1), of new_id]
      by (simp add: out2_def out1_def get_or_empty_add_mono)
    have new_in: "new_id \<in> set (Map_get_or_empty in2 targetId)"
      using get_or_empty_add_self[OF adj(2), of new_id]
      by (simp add: in2_def in1_def get_or_empty_add_mono)
    have 1: "keys_unique g'"
      using ku by (simp add: f keys_unique_def distinct_update distinct_get_add out2_def out1_def in2_def in1_def)
    have 2: "edges_linked g'"
    proof (rule edges_linkedI)
      fix k' e' assume "(k', e') \<in> set (g_edges g')"
      then have "(k' = new_id \<and> e' = edge) \<or> (k', e') \<in> set (g_edges g)"
        using ku by (auto simp: f keys_unique_def set_update_distinct)
      then show "map_of (g_nodes g') (e_sourceId e') \<noteq> None \<and> map_of (g_nodes g') (e_targetId e') \<noteq> None
          \<and> k' \<in> set (Map_get_or_empty (outgoing g') (e_sourceId e'))
          \<and> k' \<in> set (Map_get_or_empty (incoming g') (e_targetId e'))"
      proof
        assume "k' = new_id \<and> e' = edge"
        then show ?thesis using src tgt new_out new_in by (simp add: f eid)
      next
        assume "(k', e') \<in> set (g_edges g)"
        from edges_linkedD[OF el this] show ?thesis by (simp add: f mono_out mono_in)
      qed
    qed
    have 3: "nodes_adjacent g'"
    proof (rule nodes_adjacentI)
      fix k assume "map_of (g_nodes g') k \<noteq> None"
      then have "map_of (g_nodes g) k \<noteq> None" by (simp add: f)
      from nodes_adjacentD[OF na this]
      show "map_of (outgoing g') k \<noteq> None \<and> map_of (incoming g') k \<noteq> None"
        by (simp add: f out2_def out1_def in2_def in1_def map_of_get_add_None del: not_None_eq)
    qed
    have 4: "type_index_sound g'" using ti by (simp add: type_index_sound_def f)
    have 5: "content_index_sound g'" using ci by (simp add: content_index_sound_def f)
    have "graph_inv g'" using 1 2 3 4 5 by (simp add: graph_inv_def)
    moreover have "graph_inv (g' \<lparr> edgesByType := bt, stats := st \<rparr>) = graph_inv g'"
      by (simp add: graph_inv_def keys_unique_def edges_linked_def nodes_adjacent_def
            type_index_sound_def content_index_sound_def)
    ultimately show ?thesis using res by simp
  qed
qed

lemma get_or_empty_delete:
  "Map_get_or_empty (Map_get_delete k x m) k' =
     (if k' = k then removeAll x (Map_get_or_empty m k) else Map_get_or_empty m k')"
  by (auto simp: Map_get_or_empty_def Map_get_delete_def Set_delete_def update_conv' split: option.splits)

lemma get_or_empty_delete_keeps:
  "y \<noteq> x \<Longrightarrow> y \<in> set (Map_get_or_empty m k') \<Longrightarrow> y \<in> set (Map_get_or_empty (Map_get_delete k x m) k')"
  by (auto simp: get_or_empty_delete)

lemma removeEdgeInternal_frame:
  "g_nodes (removeEdgeInternal k g) = g_nodes g"
  "nodesByType (removeEdgeInternal k g) = nodesByType g"
  "contentIndex (removeEdgeInternal k g) = contentIndex g"
  "sessions (removeEdgeInternal k g) = sessions g"
  by (simp_all add: removeEdgeInternal_def Let_def split: option.splits)

lemma removeEdgeInternal_edges:
  "set (g_edges (removeEdgeInternal k g)) = {p \<in> set (g_edges g). fst p \<noteq> k}"
proof (cases "map_of (g_edges g) k")
  case None
  then have "k \<notin> fst ` set (g_edges g)" by (simp add: map_of_eq_None_iff)
  then show ?thesis using None by (auto simp: removeEdgeInternal_def)
next
  case (Some e)
  then show ?thesis by (auto simp: removeEdgeInternal_def Let_def AList.delete_eq)
qed

lemma removeEdgeInternal_adjacent:
  assumes "y \<noteq> k"
  shows "y \<in> set (Map_get_or_empty (outgoing g) m) \<Longrightarrow> y \<in> set (Map_get_or_empty (outgoing (removeEdgeInternal k g)) m)"
    and "y \<in> set (Map_get_or_empty (incoming g) m) \<Longrightarrow> y \<in> set (Map_get_or_empty (incoming (removeEdgeInternal k g)) m)"
  using assms
  by (auto simp: removeEdgeInternal_def Let_def get_or_empty_delete split: option.splits)

lemma removeEdges_frame:
  "g_nodes (removeEdges ks g) = g_nodes g"
  "nodesByType (removeEdges ks g) = nodesByType g"
  "contentIndex (removeEdges ks g) = contentIndex g"
  "sessions (removeEdges ks g) = sessions g"
  unfolding removeEdges_def
  by (induction ks arbitrary: g; simp add: removeEdgeInternal_frame)+

lemma removeEdges_edges:
  "set (g_edges (removeEdges ks g)) = {p \<in> set (g_edges g). fst p \<notin> set ks}"
  unfolding removeEdges_def
  by (induction ks arbitrary: g) (auto simp: removeEdgeInternal_edges)

lemma removeEdges_adjacent:
  assumes "y \<notin> set ks"
  shows "y \<in> set (Map_get_or_empty (outgoing g) m) \<Longrightarrow> y \<in> set (Map_get_or_empty (outgoing (removeEdges ks g)) m)"
    and "y \<in> set (Map_get_or_empty (incoming g) m) \<Longrightarrow> y \<in> set (Map_get_or_empty (incoming (removeEdges ks g)) m)"
  using assms unfolding removeEdges_def
  by (induction ks arbitrary: g; simp add: removeEdgeInternal_adjacent)+

lemma update_entries:
  "distinct (map fst m) \<Longrightarrow> (k', v') \<in> set (AList.update k v m) \<Longrightarrow>
     (k' = k \<and> v' = v) \<or> (k' \<noteq> k \<and> (k', v') \<in> set m)"
  by (induction m) (auto split: if_splits, force+)

lemma get_delete_entries:
  assumes "distinct (map fst m)" "(k', s') \<in> set (Map_get_delete k x m)"
  shows "(k' = k \<and> x \<notin> set s') \<or> (k' \<noteq> k \<and> (k', s') \<in> set m)"
proof (cases "map_of m k")
  case None
  then have "k \<notin> fst ` set m" by (simp add: map_of_eq_None_iff)
  with assms(2) None show ?thesis by (force simp: Map_get_delete_def)
next
  case (Some s)
  with assms(2) have "(k', s') \<in> set (AList.update k (removeAll x s) m)"
    by (simp add: Map_get_delete_def Set_delete_def)
  from update_entries[OF assms(1) this] show ?thesis by auto
qed

lemma removeEdgeInternal_keys:
  "keys_unique g \<Longrightarrow> keys_unique (removeEdgeInternal k g)"
  by (simp add: keys_unique_def removeEdgeInternal_def Let_def distinct_get_delete distinct_delete
        split: option.splits)

lemma removeEdgeInternal_entries:
  "map_of (outgoing (removeEdgeInternal k g)) x = None \<longleftrightarrow> map_of (outgoing g) x = None"
  "map_of (incoming (removeEdgeInternal k g)) x = None \<longleftrightarrow> map_of (incoming g) x = None"
  by (simp_all add: removeEdgeInternal_def Let_def map_of_get_delete_None split: option.splits)

lemma graph_inv_removeEdgeInternal:
  assumes inv: "graph_inv g"
  shows "graph_inv (removeEdgeInternal k g)"
proof -
  define g' where "g' = removeEdgeInternal k g"
  from inv have ku: "keys_unique g" and el: "edges_linked g" and na: "nodes_adjacent g"
    and ti: "type_index_sound g" and ci: "content_index_sound g"
    by (simp_all add: graph_inv_def)
  have f: "g_nodes g' = g_nodes g" "nodesByType g' = nodesByType g" "contentIndex g' = contentIndex g"
    by (simp_all add: g'_def removeEdgeInternal_frame)
  have 1: "keys_unique g'" using ku by (simp add: g'_def removeEdgeInternal_keys)
  have 2: "edges_linked g'"
  proof (rule edges_linkedI)
    fix k' e assume "(k', e) \<in> set (g_edges g')"
    then have old: "(k', e) \<in> set (g_edges g)" and ne: "k' \<noteq> k"
      by (auto simp: g'_def removeEdgeInternal_edges)
    from edges_linkedD[OF el old] removeEdgeInternal_adjacent[OF ne, of g]
    show "map_of (g_nodes g') (e_sourceId e) \<noteq> None \<and> map_of (g_nodes g') (e_targetId e) \<noteq> None
          \<and> k' \<in> set (Map_get_or_empty (outgoing g') (e_sourceId e))
          \<and> k' \<in> set (Map_get_or_empty (incoming g') (e_targetId e))"
      by (simp add: g'_def removeEdgeInternal_frame)
  qed
  have 3: "nodes_adjacent g'"
  proof (rule nodes_adjacentI)
    fix x assume "map_of (g_nodes g') x \<noteq> None"
    then have "map_of (g_nodes g) x \<noteq> None" by (simp add: f)
    from nodes_adjacentD[OF na this]
    show "map_of (outgoing g') x \<noteq> None \<and> map_of (incoming g') x \<noteq> None"
      by (simp add: g'_def removeEdgeInternal_entries del: not_None_eq)
  qed
  have 4: "type_index_sound g'" using ti by (simp add: type_index_sound_def f)
  have 5: "content_index_sound g'" using ci by (simp add: content_index_sound_def f)
  from 1 2 3 4 5 show ?thesis by (simp add: graph_inv_def g'_def)
qed

lemma graph_inv_removeEdges:
  "graph_inv g \<Longrightarrow> graph_inv (removeEdges ks g)"
  unfolding removeEdges_def
  by (induction ks arbitrary: g) (simp_all add: graph_inv_removeEdgeInternal)

lemma incident_edges_removed:
  assumes el: "edges_linked g"
    and g1: "g1 = removeEdges (Map_get_or_empty (outgoing g) n) g"
    and g2: "g2 = removeEdges (Map_get_or_empty (incoming g1) n) g1"
    and ke: "(k, e) \<in> set (g_edges g2)"
  shows "e_sourceId e \<noteq> n \<and> e_targetId e \<noteq> n"
proof -
  from ke have in1: "(k, e) \<in> set (g_edges g1)" and not_in: "k \<notin> set (Map_get_or_empty (incoming g1) n)"
    by (auto simp: g2 removeEdges_edges)
  then have in0: "(k, e) \<in> set (g_edges g)" and not_out: "k \<notin> set (Map_get_or_empty (outgoing g) n)"
    by (auto simp: g1 removeEdges_edges)
  from edges_linkedD[OF el in0] have adj: "k \<in> set (Map_get_or_empty (outgoing g) (e_sourceId e))"
      "k \<in> set (Map_get_or_empty (incoming g) (e_targetId e))"
    by simp_all
  have "e_sourceId e \<noteq> n" using adj(1) not_out by auto
  moreover have "e_targetId e \<noteq> n"
  proof
    assume "e_targetId e = n"
    with adj(2) have "k \<in> set (Map_get_or_empty (incoming g) n)" by simp
    from removeEdges_adjacent(2)[OF not_out this] have "k \<in> set (Map_get_or_empty (incoming g1) n)"
      by (simp add: g1)
    with not_in show False by simp
  qed
  ultimately show ?thesis by simp
qed

lemma get_delete_members:
  assumes "distinct (map fst m)" "(k', s') \<in> set (Map_get_delete k x m)" "i \<in> set s'"
  shows "i \<noteq> x \<or> k' \<noteq> k" and "\<exists>s. (k', s) \<in> set m \<and> i \<in> set s"
proof -
  show "i \<noteq> x \<or> k' \<noteq> k" using get_delete_entries[OF assms(1,2)] assms(3) by auto
  show "\<exists>s. (k', s) \<in> set m \<and> i \<in> set s"
  proof (cases "map_of m k")
    case None
    with assms(2,3) show ?thesis by (auto simp: Map_get_delete_def)
  next
    case (Some s)
    with assms(2) have "(k', s') \<in> set (AList.update k (removeAll x s) m)"
      by (simp add: Map_get_delete_def Set_delete_def)
    from update_entries[OF assms(1) this] show ?thesis
    proof
      assume "k' = k \<and> s' = removeAll x s"
      with assms(3) Some show ?thesis by (auto dest: map_of_SomeD)
    next
      assume "k' \<noteq> k \<and> (k', s') \<in> set m"
      with assms(3) show ?thesis by auto
    qed
  qed
qed

lemma graph_inv_removeNode:
  assumes inv: "graph_inv g"
  shows "graph_inv (snd (removeNode now n g))"
proof (cases "map_of (g_nodes g) n")
  case None
  then show ?thesis using inv by (simp add: removeNode_def)
next
  case (Some node)
  define g1 where "g1 = removeEdges (Map_get_or_empty (outgoing g) n) g"
  define g2 where "g2 = removeEdges (Map_get_or_empty (incoming g1) n) g1"
  define hash where "hash = hashContent (n_type node) (n_content node)"
  define g' where "g' = g2 \<lparr> contentIndex := AList.delete hash (contentIndex g2),
                   nodesByType := Map_get_delete (n_type node) n (nodesByType g2),
                   outgoing := AList.delete n (outgoing g2),
                   incoming := AList.delete n (incoming g2),
                   g_nodes := AList.delete n (g_nodes g2) \<rparr>"
  have r: "snd (removeNode now n g) =
      g' \<lparr> sessions := map (\<lambda>(k, s). (k, session_removeNode n s)) (sessions g2),
           stats := (stats g2) \<lparr> totalNodes := totalNodes (stats g2) - 1, lastModified := now \<rparr> \<rparr>"
    by (simp add: removeNode_def Some g1_def g2_def g'_def hash_def Let_def)
  have inv2: "graph_inv g2" using inv by (simp add: g2_def g1_def graph_inv_removeEdges)
  then have ku: "keys_unique g2" and el: "edges_linked g2" and na: "nodes_adjacent g2"
    and ti: "type_index_sound g2" and ci: "content_index_sound g2"
    by (simp_all add: graph_inv_def)
  from inv have el0: "edges_linked g" by (simp add: graph_inv_def)
  have nodes2: "g_nodes g2 = g_nodes g" by (simp add: g2_def g1_def removeEdges_frame)
  have node2: "map_of (g_nodes g2) n = Some node" using Some by (simp add: nodes2)
  have f: "g_nodes g' = AList.delete n (g_nodes g2)" "g_edges g' = g_edges g2"
    "contentIndex g' = AList.delete hash (contentIndex g2)"
    "nodesByType g' = Map_get_delete (n_type node) n (nodesByType g2)"
    "outgoing g' = AList.delete n (outgoing g2)" "incoming g' = AList.delete n (incoming g2)"
    by (simp_all add: g'_def)
  have other: "\<And>m x. x \<noteq> n \<Longrightarrow> Map_get_or_empty (AList.delete n m) x = Map_get_or_empty m x"
    by (simp add: Map_get_or_empty_def delete_conv')
  have 1: "keys_unique g'"
    using ku by (simp add: f keys_unique_def distinct_delete distinct_get_delete)
  have 2: "edges_linked g'"
  proof (rule edges_linkedI)
    fix k e assume "(k, e) \<in> set (g_edges g')"
    then have ke: "(k, e) \<in> set (g_edges g2)" by (simp add: f)
    from incident_edges_removed[OF el0 g1_def g2_def ke]
    have ne: "e_sourceId e \<noteq> n" "e_targetId e \<noteq> n" by simp_all
    from edges_linkedD[OF el ke] ne
    show "map_of (g_nodes g') (e_sourceId e) \<noteq> None \<and> map_of (g_nodes g') (e_targetId e) \<noteq> None
          \<and> k \<in> set (Map_get_or_empty (outgoing g') (e_sourceId e))
          \<and> k \<in> set (Map_get_or_empty (incoming g') (e_targetId e))"
      by (simp add: f other delete_conv')
  qed
  have 3: "nodes_adjacent g'"
  proof (rule nodes_adjacentI)
    fix x assume "map_of (g_nodes g') x \<noteq> None"
    then have x: "x \<noteq> n" "map_of (g_nodes g2) x \<noteq> None"
      by (auto simp: f delete_conv' split: if_splits)
    from nodes_adjacentD[OF na x(2)] x(1)
    show "map_of (outgoing g') x \<noteq> None \<and> map_of (incoming g') x \<noteq> None"
      by (simp add: f delete_conv')
  qed
  have 4: "type_index_sound g'"
  proof (rule type_index_soundI)
    fix t s i assume ts: "(t, s) \<in> set (nodesByType g')" and i: "i \<in> set s"
    from ku have d: "distinct (map fst (nodesByType g2))" by (simp add: keys_unique_def)
    from ts have ts': "(t, s) \<in> set (Map_get_delete (n_type node) n (nodesByType g2))" by (simp add: f)
    from get_delete_members[OF d ts' i] obtain s0 where
      a: "i \<noteq> n \<or> t \<noteq> n_type node" and b: "(t, s0) \<in> set (nodesByType g2)" "i \<in> set s0"
      by blast
    from type_index_soundD[OF ti b] obtain m where
      m: "map_of (g_nodes g2) i = Some m" "n_type m = t" by blast
    with a node2 have "i \<noteq> n" by auto
    with m show "\<exists>m. map_of (g_nodes g') i = Some m \<and> n_type m = t"
      by (simp add: f delete_conv')
  qed
  have 5: "content_index_sound g'"
  proof (rule content_index_soundI)
    fix h i assume "(h, i) \<in> set (contentIndex g')"
    then have hi: "(h, i) \<in> set (contentIndex g2)" and hne: "h \<noteq> hash"
      by (auto simp: f set_delete_alist)
    from content_index_soundD[OF ci hi] obtain m where
      m: "map_of (g_nodes g2) i = Some m" "hashContent (n_type m) (n_content m) = h" by blast
    with hne node2 have "i \<noteq> n" by (auto simp: hash_def)
    with m show "\<exists>m. map_of (g_nodes g') i = Some m \<and> hashContent (n_type m) (n_content m) = h"
      by (simp add: f delete_conv')
  qed
  from 1 2 3 4 5 have "graph_inv g'" by (simp add: graph_inv_def)
  then show ?thesis by (simp add: r graph_inv_sessions_irrelevant)
qed

lemma graph_inv_removeNodes:
  "graph_inv g \<Longrightarrow> graph_inv (foldl (\<lambda>g' nodeId. snd (removeNode now nodeId g')) g ids)"
  by (induction ids arbitrary: g) (simp_all add: graph_inv_removeNode)

lemma graph_inv_prune:
  "graph_inv g \<Longrightarrow> graph_inv (snd (prune now minRelevance minAge g))"
  by (simp add: prune_def Let_def graph_inv_removeNodes)

section \<open>Removing a node\<close>

text \<open>
  C2. In a graph whose indices are consistent, removing a node that is present leaves no
  edge with that node as source or target (one-way or bidirectional), no session listing
  it, no mention of it in the type index or the content index, and no entry for it in the
  node table; removing it once more returns \<open>false\<close> and changes nothing.
\<close>

theorem removeNode_clears_references:
  assumes inv: "graph_inv g" and present: "map_of (g_nodes g) n \<noteq> None"
  shows "fst (removeNode now n g)
       \<and> (\<forall>(k, e) \<in> set (g_edges (snd (removeNode now n g))). e_sourceId e \<noteq> n \<and> e_targetId e \<noteq> n)
       \<and> (\<forall>(k, s) \<in> set (sessions (snd (removeNode now n g))). n \<notin> set (nodeIds s))
       \<and> (\<forall>(t, s) \<in> set (nodesByType (snd (removeNode now n g))). n \<notin> set s)
       \<and> (\<forall>(h, i) \<in> set (contentIndex (snd (removeNode now n g))). i \<noteq> n)
       \<and> map_of (g_nodes (snd (removeNode now n g))) n = None
       \<and> removeNode now' n (snd (removeNode now n g)) = (False, snd (removeNode now n g))"
proof -
  from present obtain node where node: "map_of (g_nodes g) n = Some node" by auto
  define g1 where "g1 = removeEdges (Map_get_or_empty (outgoing g) n) g"
  define g2 where "g2 = removeEdges (Map_get_or_empty (incoming g1) n) g1"
  define g' where "g' = snd (removeNode now n g)"
  have r: "removeNode now n g =
      (True, g2 \<lparr> contentIndex := AList.delete (hashContent (n_type node) (n_content node)) (contentIndex g2),
                   nodesByType := Map_get_delete (n_type node) n (nodesByType g2),
                   outgoing := AList.delete n (outgoing g2),
                   incoming := AList.delete n (incoming g2),
                   sessions := map (\<lambda>(k, s). (k, session_removeNode n s)) (sessions g2),
                   g_nodes := AList.delete n (g_nodes g2),
                   stats := (stats g2) \<lparr> totalNodes := totalNodes (stats g2) - 1, lastModified := now \<rparr> \<rparr>)"
    by (simp add: removeNode_def node g1_def g2_def Let_def)
  have frame: "g_nodes g2 = g_nodes g" "nodesByType g2 = nodesByType g" "contentIndex g2 = contentIndex g"
    by (simp_all add: g2_def g1_def removeEdges_frame)
  have edges: "\<forall>(k, e) \<in> set (g_edges g'). e_sourceId e \<noteq> n \<and> e_targetId e \<noteq> n"
  proof (clarify)
    fix k e assume "(k, e) \<in> set (g_edges g')"
    then have in2: "(k, e) \<in> set (g_edges g2)" by (simp add: g'_def r)
    from inv have "edges_linked g" by (simp add: graph_inv_def)
    from incident_edges_removed[OF this g1_def g2_def in2]
    show "e_sourceId e \<noteq> n \<and> e_targetId e \<noteq> n" .
  qed
  have sess: "\<forall>(k, s) \<in> set (sessions g'). n \<notin> set (nodeIds s)"
    by (auto simp: g'_def r session_removeNode_def Set_delete_def)
  have types: "\<forall>(t, s) \<in> set (nodesByType g'). n \<notin> set s"
  proof (clarify)
    fix t s assume ts: "(t, s) \<in> set (nodesByType g')" and ns: "n \<in> set s"
    from ts have "(t, s) \<in> set (Map_get_delete (n_type node) n (nodesByType g))"
      by (simp add: g'_def r frame)
    moreover from inv have "distinct (map fst (nodesByType g))" by (simp add: graph_inv_def keys_unique_def)
    ultimately have "t \<noteq> n_type node" "(t, s) \<in> set (nodesByType g)"
      using get_delete_entries ns by fastforce+
    with inv ns node show False by (auto simp: graph_inv_def type_index_sound_def split: option.splits)
  qed
  have index: "\<forall>(h, i) \<in> set (contentIndex g'). i \<noteq> n"
  proof (clarify)
    fix h assume "(h, n) \<in> set (contentIndex g')"
    then have h: "(h, n) \<in> set (contentIndex g)" "h \<noteq> hashContent (n_type node) (n_content node)"
      by (auto simp: g'_def r frame AList.delete_eq)
    with inv node show False by (auto simp: graph_inv_def content_index_sound_def split: option.splits)
  qed
  have gone: "map_of (g_nodes g') n = None"
    by (simp add: g'_def r delete_conv')
  then have again: "removeNode now' n g' = (False, g')"
    by (simp add: removeNode_def)
  have "fst (removeNode now n g)" by (simp add: r)
  with edges sess types index gone again show ?thesis unfolding g'_def by blast
qed

lemmas hash_eval = hashContent_def JSON_stringify_def json_escape_def hash_step_def ToInt32_def
  toString36_def base36.simps digit36_def hex_digit_def

lemma hash_python_django: "hashContent ''framework'' ''django'' \<noteq> hashContent ''language'' ''python''"
  by (simp add: hash_eval)

lemma linked_graph_parts:
  "map fst (g_nodes linked_graph) = [''node_a'', ''node_b'']"
  "map (\<lambda>(k, e). (k, e_sourceId e, e_targetId e, e_bidirectional e)) (g_edges linked_graph)
     = [(''edge_1'', ''node_b'', ''node_a'', True)]"
  "outgoing linked_graph = [(''node_a'', [''edge_1'']), (''node_b'', [''edge_1''])]"
  "incoming linked_graph = [(''node_a'', [''edge_1'']), (''node_b'', [''edge_1''])]"
  "nodesByType linked_graph = [(''language'', [''node_a'']), (''framework'', [''node_b''])]"
  "contentIndex linked_graph = [(hashContent ''language'' ''python'', ''node_a''),
                                (hashContent ''framework'' ''django'', ''node_b'')]"
  "map (\<lambda>(k, s). (k, nodeIds s)) (sessions linked_graph) = [(''session_1'', [''node_a'', ''node_b''])]"
  using hash_python_django
  by (simp_all add: linked_graph_def addEdge_def addNode_def startSession_def endSession_def
        MemoryGraph_new_def existing_node_def findEdge_def Let_def no_options_def both_ways_def
        no_session_options_def MemoryNode_new_def MemoryEdge_new_def WorkSession_new_def
        Map_get_add_def Set_add_def Map_modify_def session_addNode_def)

lemma linked_graph_tables:
  "g_nodes linked_graph =
     [(''node_a'', MemoryNode_new ''node_a'' 20 ''language'' ''python'' (no_options \<lparr> o_sessionId := Some ''session_1'' \<rparr>)),
      (''node_b'', MemoryNode_new ''node_b'' 30 ''framework'' ''django'' (no_options \<lparr> o_sessionId := Some ''session_1'' \<rparr>))]"
  "g_edges linked_graph =
     [(''edge_1'', MemoryEdge_new ''edge_1'' 40 ''node_b'' ''node_a'' ''part_of'' both_ways)]"
  using hash_python_django
  by (simp_all add: linked_graph_def addEdge_def addNode_def startSession_def endSession_def
        MemoryGraph_new_def existing_node_def findEdge_def Let_def
        MemoryNode_new_def MemoryEdge_new_def WorkSession_new_def both_ways_def)

lemma linked_graph_inv: "graph_inv linked_graph"
  using hash_python_django hash_python_django[symmetric]
  by (simp add: graph_inv_def keys_unique_def edges_linked_def nodes_adjacent_def
        type_index_sound_def content_index_sound_def
        linked_graph_parts linked_graph_tables Map_get_or_empty_def
        MemoryNode_new_def MemoryEdge_new_def both_ways_def)

theorem removeNode_clears_references_witness:
  "graph_inv linked_graph \<and> map_of (g_nodes linked_graph) ''node_a'' \<noteq> None
   \<and> fst (removeNode 50 ''node_a'' linked_graph)
   \<and> g_edges (snd (removeNode 50 ''node_a'' linked_graph)) = []
   \<and> map_of (g_nodes (snd (removeNode 50 ''node_a'' linked_graph))) ''node_a'' = None
   \<and> removeNode 60 ''node_a'' (snd (removeNode 50 ''node_a'' linked_graph))
        = (False, snd (removeNode 50 ''node_a'' linked_graph))"
proof -
  have p: "map_of (g_nodes linked_graph) ''node_a'' \<noteq> None"
    by (simp add: linked_graph_tables)
  have e: "g_edges (snd (removeNode 50 ''node_a'' linked_graph)) = []"
    by (simp add: removeNode_def removeEdges_def removeEdgeInternal_def linked_graph_parts
          linked_graph_tables Map_get_or_empty_def Map_get_delete_def Set_delete_def Let_def
          MemoryEdge_new_def both_ways_def)
  from removeNode_clears_references[OF linked_graph_inv p, of 50 60] linked_graph_inv p e
  show ?thesis by blast
qed

section \<open>Serialization round trip\<close>

lemma touched_graph_nodes:
  "g_nodes touched_graph = [(''node_a'', touch 200 (MemoryNode_new ''node_a'' 100 ''topic'' ''testing'' no_options))]"
  by (simp add: touched_graph_def addNode_def existing_node_def MemoryGraph_new_def
        Let_def no_options_def MemoryNode_new_def)

lemma touched_graph_rest: "g_edges touched_graph = []" "sessions touched_graph = []"
  by (simp_all add: touched_graph_def addNode_def existing_node_def MemoryGraph_new_def
        Let_def no_options_def MemoryNode_new_def)

text \<open>
  C3. The round trip does not give the nodes back with their metadata. A node that was
  created at time 100 and accessed once at time 200 comes out of
  \<open>fromJSON(toJSON(G))\<close> with access count 0, no last access, and the time of the
  deserialization as its creation time: the constructor called by \<open>MemoryNode.fromJSON\<close>
  overwrites the four bookkeeping keys and nothing restores them.
\<close>

theorem fromJSON_resets_node_metadata:
  "map_option (\<lambda>n. (accessCount (n_metadata n), lastAccessedAt (n_metadata n), createdAt (n_metadata n)))
      (map_of (g_nodes touched_graph) ''node_a'') = Some (1, Some 200, 100)
   \<and> map_option (\<lambda>n. (accessCount (n_metadata n), lastAccessedAt (n_metadata n), createdAt (n_metadata n)))
      (map_of (g_nodes (fromJSON now (toJSON touched_graph))) ''node_a'') = Some (0, None, now)"
  by (simp add: touched_graph_nodes touched_graph_rest fromJSON_def toJSON_def Let_def restore_node_def
       MemoryNode_toJSON_def MemoryNode_fromJSON_def MemoryNode_new_def touch_def MemoryGraph_new_def)

section \<open>Uniqueness by content\<close>

lemma hash_topic_a_b: "hashContent ''topic'' ''b'' \<noteq> hashContent ''topic'' ''a''"
  by (simp add: hash_eval)

text \<open>
  C4. The invariant fails after \<open>updateNode\<close>. Two topic nodes with contents \<open>a\<close> and
  \<open>b\<close> are added; updating the second to content \<open>a\<close> leaves two live nodes with the
  same type and the same content, hence the same hash, and a content index that knows
  only the second.
\<close>

theorem updateNode_duplicates_content:
  "map (\<lambda>(k, n). (k, n_type n, n_content n)) (g_nodes (snd (updateNode 300 ''node_b'' content_a two_topics))) =
     [(''node_a'', ''topic'', ''a''), (''node_b'', ''topic'', ''a'')]
   \<and> contentIndex (snd (updateNode 300 ''node_b'' content_a two_topics)) = [(hashContent ''topic'' ''a'', ''node_b'')]"
  using hash_topic_a_b
  by (simp add: two_topics_def addNode_def existing_node_def MemoryGraph_new_def updateNode_def content_a_def
        Let_def no_options_def MemoryNode_new_def updateContent_def AList.delete_eq)

section \<open>Migration to the canonical conversation id\<close>

lemma pop_tail_head:
  assumes "order s = c # rest" "rest \<noteq> []" "c \<notin> set rest"
  shows "order (pop_tail s) = c # butlast rest" "c \<notin> set (butlast rest)"
    "map_of (byId (pop_tail s)) c = map_of (byId s) c"
proof -
  have "last (order s) = last rest" using assms(1,2) by simp
  moreover have "last rest \<in> set rest" using assms(2) by simp
  ultimately have l: "last (order s) \<noteq> c" using assms(3) by auto
  show "order (pop_tail s) = c # butlast rest" using assms by (simp add: pop_tail_def Let_def)
  show "c \<notin> set (butlast rest)" using assms(3) by (auto dest: in_set_butlastD)
  show "map_of (byId (pop_tail s)) c = map_of (byId s) c"
    using l by (simp add: pop_tail_def Let_def delete_conv')
qed

lemma pop_tail_shrinks:
  "urlToId (pop_tail s) = urlToId s"
  "map_of (byId (pop_tail s)) k = Some v \<Longrightarrow> map_of (byId s) k = Some v"
  "x \<in> set (order (pop_tail s)) \<Longrightarrow> x \<in> set (order s)"
  by (auto simp: pop_tail_def Let_def delete_conv' split: if_splits dest: in_set_butlastD)

lemma evict_count_unfold:
  "length (order s) > maxItems \<Longrightarrow> evict_count maxItems s = evict_count maxItems (pop_tail s)"
  "\<not> length (order s) > maxItems \<Longrightarrow> evict_count maxItems s = s"
  by (simp_all only: evict_count.simps[of maxItems s] if_True if_False)

lemma evict_bytes_unfold:
  "approxSize s > maxBytes \<and> length (order s) > 1 \<Longrightarrow>
     evict_bytes approxSize maxBytes s = evict_bytes approxSize maxBytes (pop_tail s)"
  "\<not> (approxSize s > maxBytes \<and> length (order s) > 1) \<Longrightarrow> evict_bytes approxSize maxBytes s = s"
  by (simp_all only: evict_bytes.simps[of approxSize maxBytes s] if_True if_False simp_thms)

lemma evict_count_head:
  assumes "order s = c # rest" "c \<notin> set rest" "0 < maxItems"
  shows "(\<exists>rest'. order (evict_count maxItems s) = c # rest' \<and> c \<notin> set rest')
       \<and> map_of (byId (evict_count maxItems s)) c = map_of (byId s) c"
  using assms
proof (induction maxItems s arbitrary: rest rule: evict_count.induct)
  case (1 maxItems s)
  show ?case
  proof (cases "length (order s) > maxItems")
    case False
    show ?thesis using 1(2,3) by (simp add: evict_count_unfold(2)[OF False])
  next
    case True
    with 1(2,4) have ne: "rest \<noteq> []" by auto
    note h = pop_tail_head[OF 1(2) ne 1(3)]
    from 1(1)[OF True h(1) h(2) 1(4)] h(3)
    show ?thesis by (simp only: evict_count_unfold(1)[OF True])
  qed
qed

lemma evict_count_shrinks:
  "urlToId (evict_count maxItems s) = urlToId s
   \<and> (\<forall>k v. map_of (byId (evict_count maxItems s)) k = Some v \<longrightarrow> map_of (byId s) k = Some v)
   \<and> set (order (evict_count maxItems s)) \<subseteq> set (order s)"
proof (induction maxItems s rule: evict_count.induct)
  case (1 maxItems s)
  show ?case
  proof (cases "length (order s) > maxItems")
    case False
    show ?thesis by (simp add: evict_count_unfold(2)[OF False])
  next
    case True
    let ?t = "evict_count maxItems (pop_tail s)"
    from 1[OF True] have a: "urlToId ?t = urlToId (pop_tail s)"
      and b: "\<And>k v. map_of (byId ?t) k = Some v \<Longrightarrow> map_of (byId (pop_tail s)) k = Some v"
      and c: "set (order ?t) \<subseteq> set (order (pop_tail s))" by auto
    have x: "urlToId ?t = urlToId s" by (simp add: a pop_tail_shrinks(1))
    have y: "\<forall>k v. map_of (byId ?t) k = Some v \<longrightarrow> map_of (byId s) k = Some v"
      using b pop_tail_shrinks(2) by blast
    have z: "set (order ?t) \<subseteq> set (order s)" using c pop_tail_shrinks(3) by blast
    show ?thesis unfolding evict_count_unfold(1)[OF True] using x y z by simp
  qed
qed

lemma evict_bytes_head:
  assumes "order s = c # rest" "c \<notin> set rest"
  shows "(\<exists>rest'. order (evict_bytes approxSize maxBytes s) = c # rest' \<and> c \<notin> set rest')
       \<and> map_of (byId (evict_bytes approxSize maxBytes s)) c = map_of (byId s) c"
  using assms
proof (induction approxSize maxBytes s arbitrary: rest rule: evict_bytes.induct)
  case (1 approxSize maxBytes s)
  show ?case
  proof (cases "approxSize s > maxBytes \<and> length (order s) > 1")
    case False
    show ?thesis using 1(2,3) by (simp add: evict_bytes_unfold(2)[where approxSize=approxSize and s=s and maxBytes=maxBytes, OF False])
  next
    case True
    with 1(2) have ne: "rest \<noteq> []" by auto
    note h = pop_tail_head[OF 1(2) ne 1(3)]
    from 1(1)[OF True h(1) h(2)] h(3)
    show ?thesis by (simp only: evict_bytes_unfold(1)[where approxSize=approxSize and s=s and maxBytes=maxBytes, OF True])
  qed
qed

lemma evict_bytes_shrinks:
  "urlToId (evict_bytes approxSize maxBytes s) = urlToId s
   \<and> (\<forall>k v. map_of (byId (evict_bytes approxSize maxBytes s)) k = Some v \<longrightarrow> map_of (byId s) k = Some v)
   \<and> set (order (evict_bytes approxSize maxBytes s)) \<subseteq> set (order s)"
proof (induction approxSize maxBytes s rule: evict_bytes.induct)
  case (1 approxSize maxBytes s)
  show ?case
  proof (cases "approxSize s > maxBytes \<and> length (order s) > 1")
    case False
    show ?thesis by (simp add: evict_bytes_unfold(2)[where approxSize=approxSize and s=s and maxBytes=maxBytes, OF False])
  next
    case True
    let ?t = "evict_bytes approxSize maxBytes (pop_tail s)"
    from 1[OF True] have a: "urlToId ?t = urlToId (pop_tail s)"
      and b: "\<And>k v. map_of (byId ?t) k = Some v \<Longrightarrow> map_of (byId (pop_tail s)) k = Some v"
      and c: "set (order ?t) \<subseteq> set (order (pop_tail s))" by auto
    have x: "urlToId ?t = urlToId s" by (simp add: a pop_tail_shrinks(1))
    have y: "\<forall>k v. map_of (byId ?t) k = Some v \<longrightarrow> map_of (byId s) k = Some v"
      using b pop_tail_shrinks(2) by blast
    have z: "set (order ?t) \<subseteq> set (order s)" using c pop_tail_shrinks(3) by blast
    show ?thesis unfolding evict_bytes_unfold(1)[where approxSize=approxSize and s=s and maxBytes=maxBytes, OF True] using x y z by simp
  qed
qed

text \<open>The two caps together: the front of \<open>order\<close> and its record stay, the rest only shrinks.\<close>

lemma evict_keeps_front:
  assumes "order s = c # rest" "c \<notin> set rest" "0 < maxItems"
  shows "\<exists>rest'. order (evict_bytes approxSize maxBytes (evict_count maxItems s)) = c # rest' \<and> c \<notin> set rest'"
    and "map_of (byId (evict_bytes approxSize maxBytes (evict_count maxItems s))) c = map_of (byId s) c"
    and "urlToId (evict_bytes approxSize maxBytes (evict_count maxItems s)) = urlToId s"
    and "\<And>k v. map_of (byId (evict_bytes approxSize maxBytes (evict_count maxItems s))) k = Some v
            \<Longrightarrow> map_of (byId s) k = Some v"
    and "set (order (evict_bytes approxSize maxBytes (evict_count maxItems s))) \<subseteq> set (order s)"
proof -
  let ?s1 = "evict_count maxItems s"
  let ?s2 = "evict_bytes approxSize maxBytes ?s1"
  from evict_count_head[OF assms(1-3)] obtain r1 where
    1: "order ?s1 = c # r1" "c \<notin> set r1" "map_of (byId ?s1) c = map_of (byId s) c" by blast
  from evict_bytes_head[OF 1(1,2), of approxSize maxBytes] 1(3)
  show "\<exists>rest'. order ?s2 = c # rest' \<and> c \<notin> set rest'" "map_of (byId ?s2) c = map_of (byId s) c"
    by simp_all
  note a = evict_bytes_shrinks[of approxSize maxBytes ?s1] and b = evict_count_shrinks[of maxItems s]
  show "urlToId ?s2 = urlToId s" using a b by simp
  show "\<And>k v. map_of (byId ?s2) k = Some v \<Longrightarrow> map_of (byId s) k = Some v" using a b by blast
  show "set (order ?s2) \<subseteq> set (order s)" using a b by blast
qed

text \<open>The two migrations remove the identifiers they migrate and add only the canonical one.\<close>

lemma migrate_previous_effect:
  "prevForUrl = Some p \<Longrightarrow> p \<noteq> [] \<Longrightarrow> p \<noteq> cid \<Longrightarrow>
     map_of (byId (migrate_previous prevForUrl cid (Some cid) s)) p = None
     \<and> p \<notin> set (order (migrate_previous prevForUrl cid (Some cid) s))"
  "map_of (byId (migrate_previous prevForUrl cid (Some cid) s)) k = Some v \<Longrightarrow>
     k = cid \<or> map_of (byId s) k = Some v"
  "set (order (migrate_previous prevForUrl cid (Some cid) s)) \<subseteq> set (order s)"
  "urlToId (migrate_previous prevForUrl cid (Some cid) s) = urlToId s"
  by (auto simp: migrate_previous_def delete_conv' update_conv'
           split: option.splits if_splits)

lemma migrate_incoming_effect:
  "iid \<noteq> cid \<Longrightarrow> map_of (byId (migrate_incoming iid cid s)) iid = None"
  "map_of (byId (migrate_incoming iid cid s)) k = Some v \<Longrightarrow> k = cid \<or> map_of (byId s) k = Some v"
  "map_of (byId s) k = None \<Longrightarrow> k \<noteq> cid \<Longrightarrow> map_of (byId (migrate_incoming iid cid s)) k = None"
  "set (order (migrate_incoming iid cid s)) \<subseteq> set (order s)"
  "urlToId (migrate_incoming iid cid s) = urlToId s"
  by (auto simp: migrate_incoming_def delete_conv' update_conv'
           split: option.splits if_splits)

lemma merged_record_fields:
  "c_id (merged_record now cid prev conv) = Some cid"
  "c_url (merged_record now cid prev conv) = or_else (c_url conv) (c_url prev)"
  by (simp_all add: merged_record_def Let_def spread_def)

text \<open>One save of a conversation whose URL gives a stable identifier, into any store.\<close>

lemma save_with_stable_id:
  assumes id: "c_id conv = Some iid" "iid \<noteq> []"
    and st: "stableIdFromUrl new_URL (c_url conv) = Some cid"
    and nu: "normalizeUrl new_URL (c_url conv) = nu" "nu \<noteq> []"
    and cap: "0 < maxItems"
  shows "\<exists>s' r rest.
           saveConversation new_URL approxSize now maxItems maxBytes conv s = Inr s'
         \<and> order s' = cid # rest \<and> cid \<notin> set rest
         \<and> map_of (byId s') cid = Some r \<and> c_id r = Some cid
         \<and> (c_url conv \<noteq> None \<longrightarrow> c_url r = c_url conv)
         \<and> map_of (urlToId s') nu = Some cid
         \<and> (iid \<noteq> cid \<longrightarrow> map_of (byId s') iid = None)
         \<and> (\<forall>p. map_of (urlToId s) nu = Some p \<and> p \<noteq> [] \<and> p \<noteq> cid
                \<longrightarrow> map_of (byId s') p = None \<and> p \<notin> set (order s'))
         \<and> (\<forall>k v. map_of (byId s') k = Some v \<longrightarrow> k = cid \<or> map_of (byId s) k = Some v)
         \<and> set (order s') \<subseteq> insert cid (set (order s))"
proof -
  define s1 where "s1 = migrate_previous (map_of (urlToId s) nu) cid (Some cid) s"
  define s2 where "s2 = migrate_incoming iid cid s1"
  define r where "r = merged_record now cid
       (case map_of (byId s2) cid of Some rec \<Rightarrow> rec | None \<Rightarrow> empty_conversation) conv"
  define s3 where "s3 = store_record nu cid r s2"
  define s' where "s' = evict_bytes approxSize maxBytes (evict_count maxItems s3)"
  have res: "saveConversation new_URL approxSize now maxItems maxBytes conv s = Inr s'"
    unfolding saveConversation_def st nu(1) id(1)
    using id(2) by (simp add: truthy_str_def Let_def s1_def s2_def r_def s3_def s'_def)
  have o3: "order s3 = cid # filter (\<lambda>x. x \<noteq> cid) (order s2)"
    and n3: "cid \<notin> set (filter (\<lambda>x. x \<noteq> cid) (order s2))"
    and b3: "byId s3 = AList.update cid r (byId s2)"
    and u3: "urlToId s3 = AList.update nu cid (urlToId s2)"
    using nu(2) by (simp_all add: s3_def store_record_def)
  note ev = evict_keeps_front[OF o3 n3 cap, of approxSize maxBytes, folded s'_def]
  from ev(1) obtain rest where rest: "order s' = cid # rest" "cid \<notin> set rest" by blast
  have rec: "map_of (byId s') cid = Some r" using ev(2) by (simp add: b3 update_conv')
  have url: "map_of (urlToId s') nu = Some cid" using ev(3) by (simp add: u3 update_conv')
  have shrink: "\<And>k v. map_of (byId s') k = Some v \<Longrightarrow> map_of (byId s3) k = Some v"
    using ev(4) by fastforce
  have keys3: "\<And>k v. map_of (byId s3) k = Some v \<Longrightarrow> k = cid \<or> map_of (byId s2) k = Some v"
    by (auto simp: b3 update_conv' split: if_splits)
  have ord': "set (order s') \<subseteq> insert cid (set (order s2))"
    using ev(5) by (auto simp: o3)
  have inc: "iid \<noteq> cid \<longrightarrow> map_of (byId s') iid = None"
  proof
    assume ne: "iid \<noteq> cid"
    from migrate_incoming_effect(1)[OF ne, of s1] have "map_of (byId s2) iid = None"
      by (simp add: s2_def)
    with keys3[of iid] shrink[of iid] ne show "map_of (byId s') iid = None"
      by (cases "map_of (byId s') iid") auto
  qed
  have prev: "\<forall>p. map_of (urlToId s) nu = Some p \<and> p \<noteq> [] \<and> p \<noteq> cid
                \<longrightarrow> map_of (byId s') p = None \<and> p \<notin> set (order s')"
  proof (intro allI impI)
    fix p assume p: "map_of (urlToId s) nu = Some p \<and> p \<noteq> [] \<and> p \<noteq> cid"
    from migrate_previous_effect(1)[of "map_of (urlToId s) nu" p cid s] p
    have 1: "map_of (byId s1) p = None" "p \<notin> set (order s1)" by (simp_all add: s1_def)
    from migrate_incoming_effect(3)[OF 1(1), of cid iid] p
    have 2: "map_of (byId s2) p = None" by (simp add: s2_def)
    from migrate_incoming_effect(4)[of iid cid s1] 1(2)
    have 3: "p \<notin> set (order s2)" by (auto simp: s2_def)
    from 2 keys3[of p] shrink[of p] p have "map_of (byId s') p = None"
      by (cases "map_of (byId s') p") auto
    moreover from 3 ord' p have "p \<notin> set (order s')" by auto
    ultimately show "map_of (byId s') p = None \<and> p \<notin> set (order s')" by simp
  qed
  have keys: "\<forall>k v. map_of (byId s') k = Some v \<longrightarrow> k = cid \<or> map_of (byId s) k = Some v"
  proof (intro allI impI)
    fix k v assume "map_of (byId s') k = Some v"
    from keys3[OF shrink[OF this]] show "k = cid \<or> map_of (byId s) k = Some v"
      using migrate_incoming_effect(2)[of iid cid s1 k v]
        migrate_previous_effect(2)[of "map_of (urlToId s) nu" cid s k v]
      by (auto simp: s2_def s1_def)
  qed
  have ord: "set (order s') \<subseteq> insert cid (set (order s))"
    using ord' migrate_incoming_effect(4)[of iid cid s1]
      migrate_previous_effect(3)[of "map_of (urlToId s) nu" cid s]
    by (auto simp: s2_def s1_def)
  have rf: "c_id r = Some cid" "c_url conv \<noteq> None \<longrightarrow> c_url r = c_url conv"
    by (auto simp: r_def merged_record_fields or_else_def split: option.splits)
  show ?thesis
    using res rest rec rf url inc prev keys ord by blast
qed

lemma URL_abc:
  assumes "new_URL ''https://chatgpt.com/c/abc'' = Some \<lparr> origin = ''https://chatgpt.com'', pathname = ''/c/abc'' \<rparr>"
  shows "normalizeUrl new_URL (Some ''https://chatgpt.com/c/abc'') = ''https://chatgpt.com/c/abc''"
    and "stableIdFromUrl new_URL (Some ''https://chatgpt.com/c/abc'') = Some ''c_abc''"
  using assms
  by (simp_all add: normalizeUrl_def stableIdFromUrl_def String_of_def is_id_char_def is_word_char_def)

lemma serialised_URL_abc:
  "serialised_URL ''https://chatgpt.com/c/abc'' = Some \<lparr> origin = ''https://chatgpt.com'', pathname = ''/c/abc'' \<rparr>"
  by (simp add: serialised_URL_def Let_def)

text \<open>The two saves into the empty store, computed.\<close>

lemma evict_single:
  "0 < maxItems \<Longrightarrow> length (order s) = 1 \<Longrightarrow>
   evict_bytes approxSize maxBytes (evict_count maxItems s) = s"
  by (simp add: evict_count.simps evict_bytes.simps)

lemma save_into_empty_store:
  assumes "c_id conv = Some iid" "iid \<noteq> []"
    and "stableIdFromUrl new_URL (c_url conv) = Some cid"
    and "normalizeUrl new_URL (c_url conv) = nu" "nu \<noteq> []" "0 < maxItems"
  shows "saveConversation new_URL approxSize now maxItems maxBytes conv getConversationStore_default
         = Inr \<lparr> byId = [(cid, merged_record now cid empty_conversation conv)],
                 order = [cid], urlToId = [(nu, cid)] \<rparr>"
  unfolding saveConversation_def assms(1,3,4)
  using assms(2,5)
  by (simp add: getConversationStore_default_def truthy_str_def Let_def
        migrate_previous_def migrate_incoming_def store_record_def evict_single[OF assms(6)])

lemma save_again_canonical:
  assumes "c_id conv = Some cid" "cid \<noteq> []"
    and "stableIdFromUrl new_URL (c_url conv) = Some cid"
    and "normalizeUrl new_URL (c_url conv) = nu" "nu \<noteq> []" "0 < maxItems"
  shows "saveConversation new_URL approxSize now maxItems maxBytes conv
            \<lparr> byId = [(cid, rec)], order = [cid], urlToId = [(nu, cid)] \<rparr>
         = Inr \<lparr> byId = [(cid, merged_record now cid rec conv)],
                 order = [cid], urlToId = [(nu, cid)] \<rparr>"
  unfolding saveConversation_def assms(1,3,4)
  using assms(2,5)
  by (simp add: truthy_str_def Let_def
        migrate_previous_def migrate_incoming_def store_record_def evict_single[OF assms(6)])

lemma conv_tmp_x_fields:
  "c_id conv_tmp_x = Some ''tmp_x''" "c_url conv_tmp_x = Some ''https://chatgpt.com/c/abc''"
  by (simp_all add: conv_tmp_x_def empty_conversation_def)

lemma conv_c_abc_fields:
  "c_id conv_c_abc = Some ''c_abc''" "c_url conv_c_abc = Some ''https://chatgpt.com/c/abc''"
  by (simp_all add: conv_c_abc_def empty_conversation_def)

lemma two_saves_into_empty_store:
  assumes url: "new_URL ''https://chatgpt.com/c/abc'' = Some \<lparr> origin = ''https://chatgpt.com'', pathname = ''/c/abc'' \<rparr>"
    and cap: "0 < maxItems"
  shows "\<exists>s1 s2 r. saveConversation new_URL approxSize1 now1 maxItems maxBytes1 conv_tmp_x getConversationStore_default = Inr s1
          \<and> saveConversation new_URL approxSize2 now2 maxItems maxBytes2 conv_c_abc s1 = Inr s2
          \<and> byId s2 = [(''c_abc'', r)]
          \<and> urlToId s2 = [(''https://chatgpt.com/c/abc'', ''c_abc'')]
          \<and> order s2 = [''c_abc'']"
proof -
  let ?u = "''https://chatgpt.com/c/abc''"
  have s1: "saveConversation new_URL approxSize1 now1 maxItems maxBytes1 conv_tmp_x getConversationStore_default
         = Inr \<lparr> byId = [(''c_abc'', merged_record now1 ''c_abc'' empty_conversation conv_tmp_x)],
                 order = [''c_abc''], urlToId = [(?u, ''c_abc'')] \<rparr>"
    by (rule save_into_empty_store[where iid = "''tmp_x''"])
       (simp_all add: conv_tmp_x_fields URL_abc[where new_URL=new_URL, OF url] cap)
  have s2: "saveConversation new_URL approxSize2 now2 maxItems maxBytes2 conv_c_abc
              \<lparr> byId = [(''c_abc'', merged_record now1 ''c_abc'' empty_conversation conv_tmp_x)],
                 order = [''c_abc''], urlToId = [(?u, ''c_abc'')] \<rparr>
         = Inr \<lparr> byId = [(''c_abc'', merged_record now2 ''c_abc''
                              (merged_record now1 ''c_abc'' empty_conversation conv_tmp_x) conv_c_abc)],
                 order = [''c_abc''], urlToId = [(?u, ''c_abc'')] \<rparr>"
    by (rule save_again_canonical)
       (simp_all add: conv_c_abc_fields URL_abc[where new_URL=new_URL, OF url] cap)
  show ?thesis
    apply (intro exI conjI)
        apply (rule s1)
       apply (rule s2)
      apply simp_all
    done
qed

text \<open>
  C5. Into any store, saving a conversation with id \<open>tmp_x\<close> and then one with id
  \<open>c_abc\<close>, both at \<open>https://chatgpt.com/c/abc\<close>, succeeds twice. Afterwards the record of
  that URL is stored under \<open>c_abc\<close> and carries that id; no record is left under \<open>tmp_x\<close>,
  nor under the identifier the URL was mapped to before, which is gone from \<open>order\<close> too;
  every record under another identifier is one the store held under that identifier before,
  and no other identifier has entered \<open>order\<close>; the URL maps to \<open>c_abc\<close>; and
  \<open>c_abc\<close> is the first entry of \<open>order\<close> and occurs there once. This holds whatever
  other fields the two conversations carry, for any clock readings, size estimates and
  byte caps, and any item caps of at least one. The platform's \<open>URL\<close> constructor is
  taken to read the address as origin \<open>https://chatgpt.com\<close> and pathname \<open>/c/abc\<close>.
\<close>

theorem save_tmp_then_stable:
  assumes url: "new_URL ''https://chatgpt.com/c/abc'' = Some \<lparr> origin = ''https://chatgpt.com'', pathname = ''/c/abc'' \<rparr>"
    and cap: "0 < maxItems1" "0 < maxItems2"
  shows "\<exists>s1 s2 r.
            saveConversation new_URL approxSize1 now1 maxItems1 maxBytes1
              (c1 \<lparr> c_id := Some ''tmp_x'', c_url := Some ''https://chatgpt.com/c/abc'' \<rparr>) s0 = Inr s1
          \<and> saveConversation new_URL approxSize2 now2 maxItems2 maxBytes2
              (c2 \<lparr> c_id := Some ''c_abc'', c_url := Some ''https://chatgpt.com/c/abc'' \<rparr>) s1 = Inr s2
          \<and> map_of (byId s2) ''c_abc'' = Some r
          \<and> c_id r = Some ''c_abc'' \<and> c_url r = Some ''https://chatgpt.com/c/abc''
          \<and> map_of (byId s2) ''tmp_x'' = None
          \<and> (\<forall>p. map_of (urlToId s0) ''https://chatgpt.com/c/abc'' = Some p \<and> p \<noteq> [] \<and> p \<noteq> ''c_abc''
                 \<longrightarrow> map_of (byId s2) p = None \<and> p \<notin> set (order s2))
          \<and> (\<forall>k v. map_of (byId s2) k = Some v \<longrightarrow> k = ''c_abc'' \<or> map_of (byId s0) k = Some v)
          \<and> set (order s2) \<subseteq> insert ''c_abc'' (set (order s0))
          \<and> map_of (urlToId s2) ''https://chatgpt.com/c/abc'' = Some ''c_abc''
          \<and> hd (order s2) = ''c_abc'' \<and> count_list (order s2) ''c_abc'' = 1"
proof -
  let ?u = "''https://chatgpt.com/c/abc''"
  let ?c1 = "c1 \<lparr> c_id := Some ''tmp_x'', c_url := Some ?u \<rparr>"
  let ?c2 = "c2 \<lparr> c_id := Some ''c_abc'', c_url := Some ?u \<rparr>"
  from save_with_stable_id[of ?c1 "''tmp_x''" new_URL "''c_abc''" ?u maxItems1 approxSize1 now1 maxBytes1 s0]
  obtain s1 r1 rest1 where
    a: "saveConversation new_URL approxSize1 now1 maxItems1 maxBytes1 ?c1 s0 = Inr s1"
    and a_tmp: "map_of (byId s1) ''tmp_x'' = None"
    and a_prev: "\<forall>p. map_of (urlToId s0) ?u = Some p \<and> p \<noteq> [] \<and> p \<noteq> ''c_abc''
                   \<longrightarrow> map_of (byId s1) p = None \<and> p \<notin> set (order s1)"
    and a_keys: "\<forall>k v. map_of (byId s1) k = Some v \<longrightarrow> k = ''c_abc'' \<or> map_of (byId s0) k = Some v"
    and a_ord: "set (order s1) \<subseteq> insert ''c_abc'' (set (order s0))"
    using URL_abc[where new_URL=new_URL, OF url] cap(1) by auto
  from save_with_stable_id[of ?c2 "''c_abc''" new_URL "''c_abc''" ?u maxItems2 approxSize2 now2 maxBytes2 s1]
  obtain s2 r rest where
    b: "saveConversation new_URL approxSize2 now2 maxItems2 maxBytes2 ?c2 s1 = Inr s2"
    and b_ord: "order s2 = ''c_abc'' # rest" "''c_abc'' \<notin> set rest"
    and b_rec: "map_of (byId s2) ''c_abc'' = Some r" "c_id r = Some ''c_abc''" "c_url r = Some ?u"
    and b_url: "map_of (urlToId s2) ?u = Some ''c_abc''"
    and b_keys: "\<forall>k v. map_of (byId s2) k = Some v \<longrightarrow> k = ''c_abc'' \<or> map_of (byId s1) k = Some v"
    and b_sub: "set (order s2) \<subseteq> insert ''c_abc'' (set (order s1))"
    using URL_abc[where new_URL=new_URL, OF url] cap(2) by auto
  have tmp: "map_of (byId s2) ''tmp_x'' = None"
  proof (cases "map_of (byId s2) ''tmp_x''")
    case (Some v)
    with b_keys[rule_format, of "''tmp_x''" v] a_tmp show ?thesis by simp
  qed simp
  have prev: "\<forall>p. map_of (urlToId s0) ?u = Some p \<and> p \<noteq> [] \<and> p \<noteq> ''c_abc''
                 \<longrightarrow> map_of (byId s2) p = None \<and> p \<notin> set (order s2)"
  proof (intro allI impI)
    fix p assume p: "map_of (urlToId s0) ?u = Some p \<and> p \<noteq> [] \<and> p \<noteq> ''c_abc''"
    with a_prev have 1: "map_of (byId s1) p = None" "p \<notin> set (order s1)" by auto
    have "map_of (byId s2) p = None"
    proof (cases "map_of (byId s2) p")
      case (Some v)
      with b_keys[rule_format, of p v] 1(1) p show ?thesis by simp
    qed simp
    moreover from 1(2) b_sub p have "p \<notin> set (order s2)" by auto
    ultimately show "map_of (byId s2) p = None \<and> p \<notin> set (order s2)" by simp
  qed
  have keys: "\<forall>k v. map_of (byId s2) k = Some v \<longrightarrow> k = ''c_abc'' \<or> map_of (byId s0) k = Some v"
    using a_keys b_keys by blast
  have ord: "set (order s2) \<subseteq> insert ''c_abc'' (set (order s0))"
    using a_ord b_sub by blast
  have front: "hd (order s2) = ''c_abc''" "count_list (order s2) ''c_abc'' = 1"
    using b_ord by (simp_all add: count_list_0_iff)
  show ?thesis
    using a b b_rec tmp prev keys ord b_url front by blast
qed

theorem save_tmp_then_stable_witness:
  "serialised_URL ''https://chatgpt.com/c/abc'' = Some \<lparr> origin = ''https://chatgpt.com'', pathname = ''/c/abc'' \<rparr>
   \<and> (0::nat) < 80
   \<and> map_of (byId legacy_store) ''tmp_x'' \<noteq> None
   \<and> map_of (urlToId legacy_store) ''https://chatgpt.com/c/abc'' = Some ''tmp_y''
   \<and> (\<exists>s1 s2 r.
            saveConversation serialised_URL (\<lambda>s. 0) 1000 80 8000000 conv_tmp_x legacy_store = Inr s1
          \<and> saveConversation serialised_URL (\<lambda>s. 0) 2000 80 8000000 conv_c_abc s1 = Inr s2
          \<and> map_of (byId s2) ''c_abc'' = Some r
          \<and> c_id r = Some ''c_abc'' \<and> c_url r = Some ''https://chatgpt.com/c/abc''
          \<and> map_of (byId s2) ''tmp_x'' = None
          \<and> map_of (byId s2) ''tmp_y'' = None \<and> ''tmp_y'' \<notin> set (order s2)
          \<and> map_of (urlToId s2) ''https://chatgpt.com/c/abc'' = Some ''c_abc''
          \<and> hd (order s2) = ''c_abc'' \<and> count_list (order s2) ''c_abc'' = 1)"
proof -
  have h: "(0::nat) < 80" by simp
  have l: "map_of (byId legacy_store) ''tmp_x'' \<noteq> None"
    "map_of (urlToId legacy_store) ''https://chatgpt.com/c/abc'' = Some ''tmp_y''"
    by (simp_all add: legacy_store_def)
  from save_tmp_then_stable[where new_URL = serialised_URL and ?c1.0 = empty_conversation
         and ?c2.0 = empty_conversation and ?s0.0 = legacy_store
         and ?approxSize1.0 = "\<lambda>s. 0" and ?approxSize2.0 = "\<lambda>s. 0"
         and ?now1.0 = 1000 and ?now2.0 = 2000 and ?maxBytes1.0 = 8000000 and ?maxBytes2.0 = 8000000,
         OF serialised_URL_abc h h]
  obtain s1 s2 r where
    "saveConversation serialised_URL (\<lambda>s. 0) 1000 80 8000000 conv_tmp_x legacy_store = Inr s1"
    "saveConversation serialised_URL (\<lambda>s. 0) 2000 80 8000000 conv_c_abc s1 = Inr s2"
    "map_of (byId s2) ''c_abc'' = Some r"
    "c_id r = Some ''c_abc''" "c_url r = Some ''https://chatgpt.com/c/abc''"
    "map_of (byId s2) ''tmp_x'' = None"
    "\<forall>p. map_of (urlToId legacy_store) ''https://chatgpt.com/c/abc'' = Some p \<and> p \<noteq> [] \<and> p \<noteq> ''c_abc''
                 \<longrightarrow> map_of (byId s2) p = None \<and> p \<notin> set (order s2)"
    "map_of (urlToId s2) ''https://chatgpt.com/c/abc'' = Some ''c_abc''"
    "hd (order s2) = ''c_abc''" "count_list (order s2) ''c_abc'' = 1"
    unfolding conv_tmp_x_def conv_c_abc_def by blast
  moreover from this(7) l(2) have "map_of (byId s2) ''tmp_y'' = None \<and> ''tmp_y'' \<notin> set (order s2)"
    by simp
  ultimately show ?thesis using serialised_URL_abc h l by blast
qed

section \<open>Failed webhook deliveries\<close>

lemma String_of_int_nonempty: "decimal n \<noteq> []"
  by (subst decimal.simps) simp






lemma Date_now_same: "Date_now env st = (t, st') \<Longrightarrow> fst st' = fst st"
  by (auto simp: Date_now_def)



lemma same_but_fst: "fst b = fst a \<Longrightarrow> same_but x a b"
  by (simp add: same_but_def)





















section \<open>Search ranking\<close>













































section \<open>Remote node updates\<close>

lemma local_graph_nodes: "g_nodes local_graph = [(''node_1'', local_node)]"
  by (simp add: local_graph_def local_node_def addNode_def existing_node_def MemoryGraph_new_def
        Let_def no_options_def MemoryNode_new_def)

lemma applyNodeData_throws:
  "applyNodeData now p g = (Some (ReferenceError ''require is not defined''), g)"
  by (simp add: applyNodeData_def require_def)

text \<open>
  C8. No \<open>node_added\<close> or \<open>node_updated\<close> message ever changes the local graph. A handler
  throws a \<open>ReferenceError\<close> exactly when its guard lets the incoming node through:
  \<open>node_added\<close> for an absent identifier or a strictly newer payload, \<open>node_updated\<close> for a
  present identifier and a payload that is not older. So a node the graph does not hold is
  not applied, and a newer payload does not replace the local node.
\<close>

theorem remote_node_never_applied:
  "snd (handleNodeMessage now msg p this_graph) = this_graph
   \<and> fst (handleNodeMessage now NODE_ADDED p (Some g)) =
       (case map_of (g_nodes g) (n_id p) of
          None \<Rightarrow> Some (ReferenceError ''require is not defined'')
        | Some existing \<Rightarrow>
            if updatedAt (n_metadata p) > updatedAt (n_metadata existing)
            then Some (ReferenceError ''require is not defined'') else None)
   \<and> fst (handleNodeMessage now NODE_UPDATED p (Some g)) =
       (case map_of (g_nodes g) (n_id p) of
          None \<Rightarrow> None
        | Some existing \<Rightarrow>
            if updatedAt (n_metadata p) \<ge> updatedAt (n_metadata existing)
            then Some (ReferenceError ''require is not defined'') else None)
   \<and> map_of (g_nodes local_graph) (n_id unknown_node) = None
   \<and> handleNodeMessage 150 NODE_ADDED unknown_node (Some local_graph)
        = (Some (ReferenceError ''require is not defined''), Some local_graph)
   \<and> map_of (g_nodes local_graph) (n_id remote_node) = Some local_node
   \<and> updatedAt (n_metadata local_node) < updatedAt (n_metadata remote_node)
   \<and> handleNodeMessage 150 NODE_ADDED remote_node (Some local_graph)
        = (Some (ReferenceError ''require is not defined''), Some local_graph)
   \<and> handleNodeMessage 150 NODE_UPDATED remote_node (Some local_graph)
        = (Some (ReferenceError ''require is not defined''), Some local_graph)"
proof -
  have id: "n_id remote_node = ''node_1''" "n_id unknown_node = ''node_2''"
    by (simp_all add: remote_node_def unknown_node_def MemoryNode_new_def)
  have t: "updatedAt (n_metadata remote_node) = 120" "updatedAt (n_metadata local_node) = 100"
    by (simp_all add: remote_node_def local_node_def MemoryNode_new_def)
  have 1: "snd (handleNodeMessage now msg p this_graph) = this_graph"
    by (cases msg)
       (simp_all add: handleNodeMessage_def handleRemoteNodeAdded_def handleRemoteNodeUpdated_def
          applyNodeData_throws split: option.splits)
  have 2: "fst (handleNodeMessage now NODE_ADDED p (Some g)) =
       (case map_of (g_nodes g) (n_id p) of
          None \<Rightarrow> Some (ReferenceError ''require is not defined'')
        | Some existing \<Rightarrow>
            if updatedAt (n_metadata p) > updatedAt (n_metadata existing)
            then Some (ReferenceError ''require is not defined'') else None)"
    by (simp add: handleNodeMessage_def handleRemoteNodeAdded_def applyNodeData_throws
          split: option.splits)
  have 3: "fst (handleNodeMessage now NODE_UPDATED p (Some g)) =
       (case map_of (g_nodes g) (n_id p) of
          None \<Rightarrow> None
        | Some existing \<Rightarrow>
            if updatedAt (n_metadata p) \<ge> updatedAt (n_metadata existing)
            then Some (ReferenceError ''require is not defined'') else None)"
    by (simp add: handleNodeMessage_def handleRemoteNodeUpdated_def applyNodeData_throws
          split: option.splits)
  have 4: "map_of (g_nodes local_graph) (n_id unknown_node) = None"
    "map_of (g_nodes local_graph) (n_id remote_node) = Some local_node"
    by (simp_all add: local_graph_nodes id)
  have 5: "handleNodeMessage 150 NODE_ADDED unknown_node (Some local_graph)
        = (Some (ReferenceError ''require is not defined''), Some local_graph)"
    "handleNodeMessage 150 NODE_ADDED remote_node (Some local_graph)
        = (Some (ReferenceError ''require is not defined''), Some local_graph)"
    "handleNodeMessage 150 NODE_UPDATED remote_node (Some local_graph)
        = (Some (ReferenceError ''require is not defined''), Some local_graph)"
    by (simp_all add: handleNodeMessage_def handleRemoteNodeAdded_def handleRemoteNodeUpdated_def
          applyNodeData_throws 4 t)
  from 1 2 3 4 5 t show ?thesis by simp
qed

end
